theory Spec2Isabelle
  imports Main "HOL-Library.Word" "HOL-Library.AList"
begin

section \<open>The request context and its rights\<close>

text \<open>
  The principal of a request: user name, user id and the list of granted rights, as in
  \<^verbatim>\<open>type Principal struct\<close>. The request context holds a pointer to the principal, which is
  nil for an unauthenticated request; the other members of \<^verbatim>\<open>RequestContext\<close> (writer,
  request, token, ...) play no part in the functions modelled here.
\<close>

record Principal =
  Username :: string
  UserID :: "64 word"
  Rights :: "string list"

record RequestContext =
  principal :: "Principal option"

text \<open>\<^verbatim>\<open>hasItem\<close> of middleware.go: a linear scan with string equality.\<close>

fun hasItem :: "string \<Rightarrow> string list \<Rightarrow> bool" where
  "hasItem item [] = False"
| "hasItem item (v # list) = (if v = item then True else hasItem item list)"

definition IsAuthenticated :: "RequestContext \<Rightarrow> bool" where
  "IsAuthenticated ctx = (principal ctx \<noteq> None)"

definition HasRight :: "RequestContext \<Rightarrow> string \<Rightarrow> bool" where
  "HasRight ctx right =
     (case principal ctx of
        None \<Rightarrow> False
      | Some p \<Rightarrow> hasItem right (Rights p))"

text \<open>
  \<^verbatim>\<open>AddRight\<close> appends the right; on an unauthenticated context it returns an error and
  changes nothing.
\<close>

definition AddRight :: "RequestContext \<Rightarrow> string \<Rightarrow> string option \<times> RequestContext" where
  "AddRight ctx right =
     (case principal ctx of
        None \<Rightarrow> (Some ''Session not authenticated.'', ctx)
      | Some p \<Rightarrow> (None, ctx\<lparr>principal := Some (p\<lparr>Rights := Rights p @ [right]\<rparr>)\<rparr>))"

text \<open>
  \<^verbatim>\<open>sort.Search(n, f)\<close> of the Go standard library, which \<^verbatim>\<open>RemoveRight\<close> calls: a binary
  search over the indices \<open>0..<n\<close> that halves the interval \<open>[i, j)\<close> on the value of \<open>f\<close> at
  its midpoint.
\<close>

function Search_loop :: "(nat \<Rightarrow> bool) \<Rightarrow> nat \<Rightarrow> nat \<Rightarrow> nat" where
  "Search_loop f i j =
     (if i < j then
        (let h = (i + j) div 2 in
         if \<not> f h then Search_loop f (h + 1) j else Search_loop f i h)
      else i)"
  by pat_completeness auto
termination
  by (relation "measure (\<lambda>(f, i, j). j - i)") auto

definition Search :: "nat \<Rightarrow> (nat \<Rightarrow> bool) \<Rightarrow> nat" where
  "Search n f = Search_loop f 0 n"

text \<open>
  \<^verbatim>\<open>RemoveRight\<close>: no effect without a principal; otherwise the index found by
  \<^verbatim>\<open>sort.Search\<close> with the predicate \<^verbatim>\<open>rights[i] == right\<close> is cut out of the list, unless
  the search returns \<^verbatim>\<open>len(rights)\<close>.
\<close>

definition RemoveRight :: "RequestContext \<Rightarrow> string \<Rightarrow> RequestContext" where
  "RemoveRight ctx right =
     (case principal ctx of
        None \<Rightarrow> ctx
      | Some p \<Rightarrow>
          (let rights = Rights p;
               i = Search (length rights) (\<lambda>i. rights ! i = right)
           in if i \<ge> length rights then ctx
              else ctx\<lparr>principal := Some (p\<lparr>Rights := take i rights @ drop (i + 1) rights\<rparr>)\<rparr>))"

section \<open>Values as reflection sees them\<close>

text \<open>
  The codec walks arbitrary Go values through package \<^verbatim>\<open>reflect\<close>. A value is modelled
  together with what reflection reports about its type: its kind (the constructor), and for a
  struct the descriptors of its fields and two facts about its method set.

  A floating-point number is a sign, a mantissa and an exponent, an infinity or a NaN; it
  compares equal to \<open>0\<close> exactly when it is a (positive or negative) zero.
\<close>

datatype gofloat = Finite bool nat int | Infinity bool | NaN

fun float_is_zero :: "gofloat \<Rightarrow> bool" where
  "float_is_zero (Finite s m e) = (m = 0)"
| "float_is_zero (Infinity s) = False"
| "float_is_zero NaN = False"

text \<open>
  \<^verbatim>\<open>reflect.StructField\<close>: the declared name, the package path (empty exactly for an
  exported field), the struct tag (as its list of \<^verbatim>\<open>key:"value"\<close> pairs) and whether the
  field is embedded.
\<close>

record StructField =
  Name :: string
  PkgPath :: string
  Tag :: "(string \<times> string) list"
  Anonymous :: bool

text \<open>
  The read-only flags of a \<^verbatim>\<open>reflect.Value\<close>. A value obtained through an unexported field
  is read-only: \<^verbatim>\<open>flagStickyRO\<close> when the field is not embedded, \<^verbatim>\<open>flagEmbedRO\<close> when it is.
  \<^verbatim>\<open>Value.Field\<close> hands the sticky flag down, drops the embedding flag and sets the flag
  of the field itself; \<^verbatim>\<open>Value.Elem\<close> of a pointer keeps the flags; \<^verbatim>\<open>Value.Index\<close> turns
  either flag into the sticky one (\<^verbatim>\<open>flag.ro\<close>).
  \<^verbatim>\<open>Value.Set\<close> panics when the target or the argument is read-only, \<^verbatim>\<open>Value.Interface\<close>
  when its receiver is. (A value with both flags behaves as one with the sticky flag.)
\<close>

datatype flag = RW | EmbedRO | StickyRO

definition flagRO :: "flag \<Rightarrow> bool" where
  "flagRO fl = (fl \<noteq> RW)"

definition flag_ro :: "flag \<Rightarrow> flag" where
  "flag_ro fl = (if flagRO fl then StickyRO else RW)"

definition fieldFlag :: "flag \<Rightarrow> StructField \<Rightarrow> flag" where
  "fieldFlag fl field =
     (if fl = StickyRO then StickyRO
      else if PkgPath field \<noteq> [] then (if Anonymous field then EmbedRO else StickyRO)
      else RW)"

text \<open>
  What the codec asks of a struct type's method set: \<open>marshalsText\<close> holds when a value of
  the type can be asserted to \<^verbatim>\<open>encoding.TextMarshaler\<close>; \<open>unmarshals\<close> holds when the type
  or its pointer type implements \<^verbatim>\<open>json.Unmarshaler\<close> or \<^verbatim>\<open>encoding.TextUnmarshaler\<close>.
\<close>

record StructType =
  marshalsText :: bool
  unmarshals :: bool

text \<open>
  Signed integers of every width are \<open>VInt\<close>, unsigned ones (and \<^verbatim>\<open>uintptr\<close>) \<open>VUint\<close>; \<open>VOther\<close>
  stands for the kinds the codec never looks into (complex numbers, channels, functions,
  unsafe pointers). A nil slice or map is the empty one. A pointer or interface holds its
  target, or nothing when it is nil.
\<close>

datatype val =
    VBool bool
  | VInt int
  | VUint nat
  | VFloat gofloat
  | VString string
  | VArray "val list"
  | VMap "(val \<times> val) list"
  | VSlice "val list"
  | VPtr "val option"
  | VInterface "val option"
  | VStruct StructType "(StructField \<times> val) list"
  | VOther

datatype Kind =
    KBool | KInt | KUint | KFloat | KString | KArray | KMap | KSlice | KPtr | KInterface
  | KStruct | KOther

fun kindOf :: "val \<Rightarrow> Kind" where
  "kindOf (VBool b) = KBool"
| "kindOf (VInt i) = KInt"
| "kindOf (VUint n) = KUint"
| "kindOf (VFloat f) = KFloat"
| "kindOf (VString s) = KString"
| "kindOf (VArray xs) = KArray"
| "kindOf (VMap m) = KMap"
| "kindOf (VSlice xs) = KSlice"
| "kindOf (VPtr p) = KPtr"
| "kindOf (VInterface p) = KInterface"
| "kindOf (VStruct st fs) = KStruct"
| "kindOf VOther = KOther"

text \<open>\<^verbatim>\<open>isEmpty\<close> of reflect.go: a switch on the kind, \<^verbatim>\<open>false\<close> for every kind not listed.\<close>

fun isEmpty :: "val \<Rightarrow> bool" where
  "isEmpty (VArray xs) = (length xs = 0)"
| "isEmpty (VMap m) = (length m = 0)"
| "isEmpty (VSlice xs) = (length xs = 0)"
| "isEmpty (VString s) = (length s = 0)"
| "isEmpty (VBool b) = (\<not> b)"
| "isEmpty (VInt i) = (i = 0)"
| "isEmpty (VUint n) = (n = 0)"
| "isEmpty (VFloat f) = float_is_zero f"
| "isEmpty (VInterface p) = (p = None)"
| "isEmpty (VPtr p) = (p = None)"
| "isEmpty (VStruct st fs) = False"
| "isEmpty VOther = False"

text \<open>\<^verbatim>\<open>StructTag.Get\<close>: the value stored under the key, or the empty string.\<close>

definition Tag_Get :: "(string \<times> string) list \<Rightarrow> string \<Rightarrow> string" where
  "Tag_Get tag key = (case map_of tag key of None \<Rightarrow> [] | Some v \<Rightarrow> v)"

text \<open>
  \<^verbatim>\<open>parseJSONTag\<close>: the text before the first comma and the text after it; the whole tag and
  the empty string when there is no comma.
\<close>

definition parseJSONTag :: "string \<Rightarrow> string \<times> string" where
  "parseJSONTag tag =
     (if CHR '','' \<in> set tag
      then (takeWhile (\<lambda>c. c \<noteq> CHR '','') tag, tl (dropWhile (\<lambda>c. c \<noteq> CHR '','') tag))
      else (tag, []))"

text \<open>
  \<^verbatim>\<open>hasJSONOption\<close>: the loop cuts the options at each comma (the same cut as
  \<^verbatim>\<open>parseJSONTag\<close>) and compares the piece before it with the key.
\<close>

function hasJSONOption_loop :: "string \<Rightarrow> string \<Rightarrow> bool" where
  "hasJSONOption_loop key opts =
     (if opts \<noteq> [] then
        (if fst (parseJSONTag opts) = key then True
         else hasJSONOption_loop key (snd (parseJSONTag opts)))
      else False)"
  by pat_completeness auto
termination
proof (relation "measure (\<lambda>(key, opts). length opts)")
  show "wf (measure (\<lambda>(key, opts). length opts))" by simp
next
  fix key opts :: string
  assume "opts \<noteq> []"
  then have pos: "0 < length opts" by simp
  have "length (dropWhile (\<lambda>c. c \<noteq> CHR '','') opts) \<le> length opts"
    by (rule length_dropWhile_le)
  moreover have "length (tl (dropWhile (\<lambda>c. c \<noteq> CHR '','') opts))
      = length (dropWhile (\<lambda>c. c \<noteq> CHR '','') opts) - 1"
    by simp
  ultimately have "length (tl (dropWhile (\<lambda>c. c \<noteq> CHR '','') opts)) < length opts"
    using pos by linarith
  then have "length (snd (parseJSONTag opts)) < length opts"
    using pos by (simp add: parseJSONTag_def del: length_tl)
  then show "((key, snd (parseJSONTag opts)), (key, opts)) \<in> measure (\<lambda>(key, opts). length opts)"
    by simp
qed

definition hasJSONOption :: "string \<Rightarrow> string \<Rightarrow> bool" where
  "hasJSONOption key opts = (if length opts = 0 then False else hasJSONOption_loop key opts)"

section \<open>The serializer\<close>

text \<open>
  What \<^verbatim>\<open>safeSerialize\<close> builds: a Go value passed through as it is (\<open>WLeaf\<close>), a
  \<^verbatim>\<open>[]interface{}\<close> or a \<^verbatim>\<open>map[string]interface{}\<close>. The map is kept as an association list
  with one entry per key; \<^verbatim>\<open>out[name] = val\<close> is \<^const>\<open>AList.update\<close>.
\<close>

datatype wire = WLeaf val | WSeq "wire list" | WMap "(string \<times> wire) list"

type_synonym error = string

text \<open>
  A call returns a value with a nil error, returns a non-nil error, or panics. A call that
  neither returns nor panics within the given depth of nested calls is \<open>None\<close>.
\<close>

datatype 'a result = Value 'a | Error error | Panics

text \<open>
  The loop of \<^verbatim>\<open>safeSerializeSlice\<close>. Its first argument is \<^verbatim>\<open>ctx.safeSerialize\<close>, the call
  it makes for each element.
\<close>

fun sliceLoop :: "(val option \<Rightarrow> wire result option) \<Rightarrow> val list \<Rightarrow> wire list \<Rightarrow>
    wire result option" where
  "sliceLoop ser [] items = Some (Value (WSeq items))"
| "sliceLoop ser (x # xs) items =
     (case ser (Some x) of
        None \<Rightarrow> None
      | Some (Value val) \<Rightarrow> sliceLoop ser xs (items @ [val])
      | Some (Error err) \<Rightarrow> Some (Error err)
      | Some Panics \<Rightarrow> Some Panics)"

text \<open>
  The loop of \<^verbatim>\<open>safeSerializeStruct\<close> over the fields, in declaration order. \<open>snake\<close> is
  \<^verbatim>\<open>snaker.CamelToSnake\<close>, a library function; \<open>ser field\<close> is \<^verbatim>\<open>ctx.safeSerialize\<close> on the
  value \<^verbatim>\<open>src.Field(i)\<close> of that field, and \<open>self\<close> is the call
  \<^verbatim>\<open>ctx.safeSerializeStruct(src, out)\<close> of the branch for an anonymous field, which passes the
  struct itself, not the field.
\<close>

fun structLoop :: "(string \<Rightarrow> string) \<Rightarrow> RequestContext \<Rightarrow>
    (StructField \<Rightarrow> val option \<Rightarrow> wire result option) \<Rightarrow>
    ((string \<times> wire) list \<Rightarrow> wire result option) \<Rightarrow>
    (StructField \<times> val) list \<Rightarrow> (string \<times> wire) list \<Rightarrow> wire result option" where
  "structLoop snake ctx ser self [] out = Some (Value (WMap out))"
| "structLoop snake ctx ser self ((field, v) # rest) out =
     (let r = Tag_Get (Tag field) ''readWrite'' in
      if r = [] \<or> HasRight ctx r then
        (let (name, opts) = parseJSONTag (Tag_Get (Tag field) ''json'') in
         if name = ''-'' \<or> (hasJSONOption ''omitempty'' opts \<and> isEmpty v) then
           structLoop snake ctx ser self rest out
         else if name = [] \<and> Name field = [] then
           (case self out of
              None \<Rightarrow> None
            | Some (Value w) \<Rightarrow>
                structLoop snake ctx ser self rest (case w of WMap m \<Rightarrow> m | _ \<Rightarrow> out)
            | Some (Error err) \<Rightarrow> Some (Error err)
            | Some Panics \<Rightarrow> Some Panics)
         else
           (case ser field (Some v) of
              None \<Rightarrow> None
            | Some (Value val) \<Rightarrow>
                structLoop snake ctx ser self rest
                  (AList.update (if name = [] then snake (Name field) else name) val out)
            | Some (Error err) \<Rightarrow> Some (Error err)
            | Some Panics \<Rightarrow> Some Panics))
      else structLoop snake ctx ser self rest out)"

text \<open>
  \<^verbatim>\<open>safeSerialize\<close> and \<^verbatim>\<open>safeSerializeStruct\<close>. The third argument bounds the depth of
  nested calls. A \<^verbatim>\<open>reflect.Value\<close> is its flag and \<open>Some v\<close>, or \<open>None\<close> for the zero Value
  that \<^verbatim>\<open>Elem\<close> returns on a nil pointer; \<^verbatim>\<open>Type\<close> panics on it. \<^verbatim>\<open>NumField\<close> panics on a
  value that is not a struct. \<^verbatim>\<open>src.Interface()\<close>, in the struct case and in the default
  case, panics on a read-only value. \<^verbatim>\<open>MakeJSONResponse\<close> starts from
  \<^verbatim>\<open>reflect.ValueOf(v)\<close>, whose flag is \<open>RW\<close>.
\<close>

fun fieldsOf :: "val \<Rightarrow> (StructField \<times> val) list option" where
  "fieldsOf (VStruct st fs) = Some fs"
| "fieldsOf v = None"

function safeSerialize :: "(string \<Rightarrow> string) \<Rightarrow> RequestContext \<Rightarrow> nat \<Rightarrow> flag \<Rightarrow> val option \<Rightarrow>
    wire result option"
and safeSerializeStruct :: "(string \<Rightarrow> string) \<Rightarrow> RequestContext \<Rightarrow> nat \<Rightarrow> flag \<Rightarrow> val \<Rightarrow>
    (string \<times> wire) list option \<Rightarrow> wire result option"
where
  "safeSerialize snake ctx 0 fl src = None"
| "safeSerialize snake ctx (Suc n) fl None = Some Panics"
| "safeSerialize snake ctx (Suc n) fl (Some v) =
     (case v of
        VSlice xs \<Rightarrow> sliceLoop (\<lambda>x. safeSerialize snake ctx n (flag_ro fl) x) xs []
      | VStruct st fs \<Rightarrow>
          if flagRO fl then Some Panics
          else if marshalsText st then Some (Value (WLeaf v))
          else safeSerializeStruct snake ctx n fl v None
      | VPtr p \<Rightarrow> safeSerialize snake ctx n fl p
      | _ \<Rightarrow> if flagRO fl then Some Panics else Some (Value (WLeaf v)))"
| "safeSerializeStruct snake ctx 0 fl src out = None"
| "safeSerializeStruct snake ctx (Suc n) fl src out =
     (case fieldsOf src of
        None \<Rightarrow> Some Panics
      | Some fs \<Rightarrow>
          structLoop snake ctx (\<lambda>field x. safeSerialize snake ctx n (fieldFlag fl field) x)
            (\<lambda>m. safeSerializeStruct snake ctx n fl src (Some m)) fs
            (case out of None \<Rightarrow> [] | Some m \<Rightarrow> m))"
  by pat_completeness auto
termination
  by (relation "measure (\<lambda>x. case x of Inl (snake, ctx, n, fl, v) \<Rightarrow> n
                                     | Inr (snake, ctx, n, fl, src, out) \<Rightarrow> n)") simp_all

section \<open>The merger and the two-phase decode\<close>

text \<open>
  The error result of \<^verbatim>\<open>safeMerge\<close> and \<^verbatim>\<open>ReadJSON\<close>: nil, a non-nil error, or a panic
  instead of a return. Both work in place on the target, so each returns the target as it is
  left, also when the call does not return nil.
\<close>

datatype outcome = Nil | Err error | Panic

text \<open>\<^verbatim>\<open>Value.Field(i)\<close>: panics (\<open>None\<close>) on a value that is not a struct or has no field \<open>i\<close>.\<close>

fun Field :: "val \<Rightarrow> nat \<Rightarrow> val option" where
  "Field (VStruct st fs) i = (if i < length fs then Some (snd (fs ! i)) else None)"
| "Field v i = None"

text \<open>The flag of \<^verbatim>\<open>v.Field(i)\<close>, for a value \<open>v\<close> with the flag \<open>fl\<close>.\<close>

fun flagOfField :: "flag \<Rightarrow> val \<Rightarrow> nat \<Rightarrow> flag" where
  "flagOfField fl (VStruct st fs) i = (if i < length fs then fieldFlag fl (fst (fs ! i)) else fl)"
| "flagOfField fl v i = fl"

text \<open>
  \<^verbatim>\<open>isRecursibleType\<close>: a struct whose type has no unmarshaler of its own (neither on the
  type nor on its pointer type).
\<close>

fun isRecursibleType :: "val \<Rightarrow> bool" where
  "isRecursibleType (VStruct st fs) = (\<not> unmarshals st)"
| "isRecursibleType v = False"

text \<open>
  \<^verbatim>\<open>safeMerge\<close>, on the values \<open>src\<close> and \<open>dst\<close> with their flags. \<open>mergeLoop\<close> is its loop, at
  index \<open>i\<close> with the fields of \<open>dst\<close> from \<open>i\<close> on; the tag is read from the type of \<open>dst\<close>,
  the recursion test looks at the field of \<open>src\<close>. \<^verbatim>\<open>dstField.Set(srcField)\<close> panics when
  either field is read-only and stores the source field otherwise. A non-nil error of the
  recursive call is returned at once.
\<close>

function safeMerge :: "RequestContext \<Rightarrow> flag \<Rightarrow> val \<Rightarrow> flag \<Rightarrow> val \<Rightarrow> outcome \<times> val"
and mergeLoop :: "RequestContext \<Rightarrow> flag \<Rightarrow> val \<Rightarrow> flag \<Rightarrow> nat \<Rightarrow> (StructField \<times> val) list \<Rightarrow>
    outcome \<times> (StructField \<times> val) list"
where
  "safeMerge ctx sfl src dfl dst =
     (case dst of
        VStruct st fs \<Rightarrow>
          (case mergeLoop ctx sfl src dfl 0 fs of (err, fs') \<Rightarrow> (err, VStruct st fs'))
      | _ \<Rightarrow> (Panic, dst))"
| "mergeLoop ctx sfl src dfl i [] = (Nil, [])"
| "mergeLoop ctx sfl src dfl i ((field, dstField) # rest) =
     (let w = Tag_Get (Tag field) ''writeRight'' in
      if w = [] \<or> HasRight ctx w then
        (case Field src i of
           None \<Rightarrow> (Panic, (field, dstField) # rest)
         | Some srcField \<Rightarrow>
             if isRecursibleType srcField then
               (case safeMerge ctx (flagOfField sfl src i) srcField (fieldFlag dfl field) dstField of
                  (Nil, d) \<Rightarrow>
                    (case mergeLoop ctx sfl src dfl (i + 1) rest of
                       (err, rest') \<Rightarrow> (err, (field, d) # rest'))
                | (err, d) \<Rightarrow> (err, (field, d) # rest))
             else if flagRO (fieldFlag dfl field) \<or> flagRO (flagOfField sfl src i) then
               (Panic, (field, dstField) # rest)
             else
               (case mergeLoop ctx sfl src dfl (i + 1) rest of
                  (err, rest') \<Rightarrow> (err, (field, srcField) # rest')))
      else
        (case mergeLoop ctx sfl src dfl (i + 1) rest of
           (err, rest') \<Rightarrow> (err, (field, dstField) # rest')))"
  by pat_completeness auto
termination
  by (relation "measure (\<lambda>x. case x of
        Inl (ctx, sfl, src, dfl, dst) \<Rightarrow> 2 * size dst
      | Inr (ctx, sfl, src, dfl, i, fs) \<Rightarrow> 2 * size_list (size_prod (\<lambda>f. 0) size) fs + 1)")
    simp_all

text \<open>
  The zero value of the type of a value, as \<^verbatim>\<open>reflect.New(rv.Elem().Type()).Elem()\<close> makes
  it: the scratch instance of \<^verbatim>\<open>ReadJSON\<close>.
\<close>

fun zeroValue :: "val \<Rightarrow> val" where
  "zeroValue (VBool b) = VBool False"
| "zeroValue (VInt i) = VInt 0"
| "zeroValue (VUint n) = VUint 0"
| "zeroValue (VFloat f) = VFloat (Finite False 0 0)"
| "zeroValue (VString s) = VString []"
| "zeroValue (VArray xs) = VArray (map zeroValue xs)"
| "zeroValue (VMap m) = VMap []"
| "zeroValue (VSlice xs) = VSlice []"
| "zeroValue (VPtr p) = VPtr None"
| "zeroValue (VInterface p) = VInterface None"
| "zeroValue (VStruct st fs) = VStruct st (map (\<lambda>(f, v). (f, zeroValue v)) fs)"
| "zeroValue VOther = VOther"

text \<open>
  \<^verbatim>\<open>ReadJSON\<close>. \<open>v\<close> is the value the argument points to. \<open>ReadJSONUnsafe\<close> is the decode of
  the request body by \<^verbatim>\<open>encoding/json\<close> into the scratch instance \<open>ru\<close>: it gives an error,
  or the scratch instance as the decoder has filled it. Neither \<^verbatim>\<open>reflect.New(...).Elem()\<close>
  nor \<^verbatim>\<open>rv.Elem()\<close> is read-only.
\<close>

definition ReadJSON :: "RequestContext \<Rightarrow> (val \<Rightarrow> error + val) \<Rightarrow> val \<Rightarrow> outcome \<times> val" where
  "ReadJSON ctx ReadJSONUnsafe v =
     (let ru = zeroValue v in
      case ReadJSONUnsafe ru of
        Inl err \<Rightarrow> (Err err, v)
      | Inr ru' \<Rightarrow> safeMerge ctx RW ru' RW v)"

section \<open>The policy of a field\<close>

text \<open>
  The policy that the two loops resolve for a field, named as the design names it. The read
  right is the value of the tag \<^verbatim>\<open>readWrite\<close> (the key \<^verbatim>\<open>safeSerializeStruct\<close> reads), the
  write right the value of the tag \<^verbatim>\<open>writeRight\<close>; the wire name and the options are the two
  parts of the tag \<^verbatim>\<open>json\<close>.
\<close>

definition readRight :: "StructField \<Rightarrow> string" where
  "readRight field = Tag_Get (Tag field) ''readWrite''"

definition writeRight :: "StructField \<Rightarrow> string" where
  "writeRight field = Tag_Get (Tag field) ''writeRight''"

definition jsonName :: "StructField \<Rightarrow> string" where
  "jsonName field = fst (parseJSONTag (Tag_Get (Tag field) ''json''))"

definition omitEmpty :: "StructField \<Rightarrow> bool" where
  "omitEmpty field = hasJSONOption ''omitempty'' (snd (parseJSONTag (Tag_Get (Tag field) ''json'')))"

definition wireName :: "(string \<Rightarrow> string) \<Rightarrow> StructField \<Rightarrow> string" where
  "wireName snake field = (if jsonName field = [] then snake (Name field) else jsonName field)"

definition readable :: "RequestContext \<Rightarrow> StructField \<Rightarrow> bool" where
  "readable ctx field = (readRight field = [] \<or> HasRight ctx (readRight field))"

definition writable :: "RequestContext \<Rightarrow> StructField \<Rightarrow> bool" where
  "writable ctx field = (writeRight field = [] \<or> HasRight ctx (writeRight field))"

text \<open>
  A field that the loop of \<^verbatim>\<open>safeSerializeStruct\<close> serializes under its wire name: readable,
  not suppressed by the name \<^verbatim>\<open>-\<close>, not omitted as empty, and not sent into the branch for
  a field with neither a wire name nor a name.
\<close>

definition emitted :: "RequestContext \<Rightarrow> StructField \<Rightarrow> val \<Rightarrow> bool" where
  "emitted ctx field v =
     (readable ctx field \<and> jsonName field \<noteq> ''-'' \<and> \<not> (omitEmpty field \<and> isEmpty v) \<and>
      \<not> (jsonName field = [] \<and> Name field = []))"

text \<open>A field that the loop passes over without any effect on the tree.\<close>

definition skipped :: "RequestContext \<Rightarrow> StructField \<Rightarrow> val \<Rightarrow> bool" where
  "skipped ctx field v =
     (jsonName field = ''-'' \<or> (omitEmpty field \<and> isEmpty v) \<or> \<not> readable ctx field)"

definition emittedNames :: "(string \<Rightarrow> string) \<Rightarrow> RequestContext \<Rightarrow> (StructField \<times> val) list \<Rightarrow>
    string set" where
  "emittedNames snake ctx fs = set (map (\<lambda>(f, v). wireName snake f) (filter (\<lambda>(f, v). emitted ctx f v) fs))"

text \<open>
  Two values of one struct type, as far as the merger can tell: the same method-set facts
  and field descriptors, and field by field again the same type; values that are not structs
  only need the same kind.
\<close>

fun sameType :: "val \<Rightarrow> val \<Rightarrow> bool"
and sameFieldTypes :: "(StructField \<times> val) list \<Rightarrow> (StructField \<times> val) list \<Rightarrow> bool" where
  "sameType (VStruct st fs) (VStruct st' fs') = (st = st' \<and> sameFieldTypes fs fs')"
| "sameType a b = (kindOf a = kindOf b)"
| "sameFieldTypes [] [] = True"
| "sameFieldTypes ((f, a) # fs) ((g, b) # gs) = (f = g \<and> sameType a b \<and> sameFieldTypes fs gs)"
| "sameFieldTypes [] (x # gs) = False"
| "sameFieldTypes (x # fs) [] = False"

text \<open>
  A target that the merger can write wherever the context lets it: no field that it sets
  is read-only, down through the struct fields it recurses into.
\<close>

fun settable :: "RequestContext \<Rightarrow> flag \<Rightarrow> val \<Rightarrow> bool"
and settableFields :: "RequestContext \<Rightarrow> flag \<Rightarrow> (StructField \<times> val) list \<Rightarrow> bool" where
  "settable ctx fl (VStruct st fs) = settableFields ctx fl fs"
| "settable ctx fl v = True"
| "settableFields ctx fl [] = True"
| "settableFields ctx fl ((f, v) # fs) =
     ((if writable ctx f then
         (if isRecursibleType v then settable ctx (fieldFlag fl f) v
          else \<not> flagRO (fieldFlag fl f))
       else True) \<and>
      settableFields ctx fl fs)"

text \<open>
  A context that holds every write right named in the type of a value, down through the
  struct fields the merger recurses into.
\<close>

fun allWritable :: "RequestContext \<Rightarrow> val \<Rightarrow> bool"
and allWritableFields :: "RequestContext \<Rightarrow> (StructField \<times> val) list \<Rightarrow> bool" where
  "allWritable ctx (VStruct st fs) = allWritableFields ctx fs"
| "allWritable ctx v = True"
| "allWritableFields ctx [] = True"
| "allWritableFields ctx ((f, v) # fs) =
     (writable ctx f \<and> (if isRecursibleType v then allWritable ctx v else True) \<and>
      allWritableFields ctx fs)"

text \<open>
  The round trip of a record: \<^verbatim>\<open>safeSerialize\<close>, then \<^verbatim>\<open>ReadJSON\<close> into a zero-valued target
  of the same type. \<open>decode w\<close> is the decode, by \<^verbatim>\<open>encoding/json\<close>, of the body that encodes
  the tree \<open>w\<close>.
\<close>

definition roundTrip :: "(string \<Rightarrow> string) \<Rightarrow> RequestContext \<Rightarrow> nat \<Rightarrow>
    (wire \<Rightarrow> val \<Rightarrow> error + val) \<Rightarrow> val \<Rightarrow> (outcome \<times> val) option" where
  "roundTrip snake ctx n decode R =
     (case safeSerialize snake ctx n RW (Some R) of
        None \<Rightarrow> None
      | Some (Value w) \<Rightarrow> Some (ReadJSON ctx (decode w) (zeroValue R))
      | Some (Error err) \<Rightarrow> Some (Err err, zeroValue R)
      | Some Panics \<Rightarrow> Some (Panic, zeroValue R))"

section \<open>Example records\<close>

text \<open>Shorthands for the concrete records and contexts of the examples below.\<close>

abbreviation plain :: StructType where
  "plain \<equiv> \<lparr>marshalsText = False, unmarshals = False\<rparr>"

abbreviation fld :: "string \<Rightarrow> (string \<times> string) list \<Rightarrow> StructField" where
  "fld n t \<equiv> \<lparr>Name = n, PkgPath = [], Tag = t, Anonymous = False\<rparr>"

abbreviation unexported :: "string \<Rightarrow> (string \<times> string) list \<Rightarrow> StructField" where
  "unexported n t \<equiv> \<lparr>Name = n, PkgPath = ''main'', Tag = t, Anonymous = False\<rparr>"

abbreviation unauthenticated :: RequestContext where
  "unauthenticated \<equiv> \<lparr>principal = None\<rparr>"

abbreviation holding :: "string list \<Rightarrow> RequestContext" where
  "holding rs \<equiv> \<lparr>principal = Some \<lparr>Username = ''u'', UserID = 1, Rights = rs\<rparr>\<rparr>"

section \<open>Rights: theorems\<close>

lemma hasItem_iff: "hasItem item list \<longleftrightarrow> item \<in> set list"
  by (induction list) auto

lemma HasRight_unauthenticated: "principal ctx = None \<Longrightarrow> \<not> HasRight ctx right"
  by (simp add: HasRight_def)

lemma RemoveRight_unauthenticated: "principal ctx = None \<Longrightarrow> RemoveRight ctx right = ctx"
  by (simp add: RemoveRight_def)

section \<open>The serializer: lemmas\<close>

declare hasJSONOption_loop.simps [simp del]
declare Search_loop.simps [simp del]

lemmas eval_simps =
  Tag_Get_def parseJSONTag_def hasJSONOption_def hasJSONOption_loop.simps HasRight_def
  readRight_def writeRight_def jsonName_def omitEmpty_def wireName_def readable_def
  writable_def emitted_def structLoop.simps Let_def

lemma structLoop_Cons:
  "structLoop snake ctx ser self ((field, v) # rest) out =
     (if \<not> readable ctx field then structLoop snake ctx ser self rest out
      else if jsonName field = ''-'' \<or> (omitEmpty field \<and> isEmpty v) then
        structLoop snake ctx ser self rest out
      else if jsonName field = [] \<and> Name field = [] then
        (case self out of
           None \<Rightarrow> None
         | Some (Value w) \<Rightarrow>
             structLoop snake ctx ser self rest (case w of WMap m \<Rightarrow> m | _ \<Rightarrow> out)
         | Some (Error err) \<Rightarrow> Some (Error err)
         | Some Panics \<Rightarrow> Some Panics)
      else
        (case ser field (Some v) of
           None \<Rightarrow> None
         | Some (Value val) \<Rightarrow>
             structLoop snake ctx ser self rest (AList.update (wireName snake field) val out)
         | Some (Error err) \<Rightarrow> Some (Error err)
         | Some Panics \<Rightarrow> Some Panics))"
  unfolding readable_def readRight_def jsonName_def omitEmpty_def wireName_def
  by (simp add: Let_def case_prod_beta)

declare structLoop.simps(2) [simp del]

lemma structLoop_filter_skipped:
  assumes "\<And>out. self out = self' out"
  shows "structLoop snake ctx ser self fs out
       = structLoop snake ctx ser self' (filter (\<lambda>(f, v). \<not> skipped ctx f v) fs) out"
  using assms
proof (induction fs arbitrary: out)
  case Nil
  show ?case by simp
next
  case (Cons a fs)
  obtain f v where a: "a = (f, v)" by (cases a)
  show ?case
    unfolding a using Cons
    by (simp add: structLoop_Cons skipped_def
        split: option.splits result.splits wire.splits)
qed

lemma safeSerializeStruct_filter_skipped:
  "safeSerializeStruct snake ctx n fl (VStruct st fs) out
   = safeSerializeStruct snake ctx n fl (VStruct st (filter (\<lambda>(f, v). \<not> skipped ctx f v) fs)) out"
proof (induction n arbitrary: out)
  case 0
  show ?case by simp
next
  case (Suc n)
  show ?case
    by simp (rule structLoop_filter_skipped, rule Suc)
qed

lemma safeSerializeStruct_same_unskipped:
  assumes "filter (\<lambda>(f, v). \<not> skipped ctx f v) fs = filter (\<lambda>(f, v). \<not> skipped ctx f v) fs'"
  shows "safeSerializeStruct snake ctx n fl (VStruct st fs) out
       = safeSerializeStruct snake ctx n fl (VStruct st fs') out"
  using safeSerializeStruct_filter_skipped [of snake ctx n fl st fs out]
    safeSerializeStruct_filter_skipped [of snake ctx n fl st fs' out] assms
  by simp

lemma safeSerializeStruct_filter_readable:
  "safeSerializeStruct snake ctx n fl (VStruct st fs) out
   = safeSerializeStruct snake ctx n fl (VStruct st (filter (\<lambda>(f, v). readable ctx f) fs)) out"
proof (rule safeSerializeStruct_same_unskipped)
  have "(\<not> skipped ctx f v) = (readable ctx f \<and> \<not> skipped ctx f v)" for f v
    by (auto simp: skipped_def)
  then show "filter (\<lambda>(f, v). \<not> skipped ctx f v) fs
      = filter (\<lambda>(f, v). \<not> skipped ctx f v) (filter (\<lambda>(f, v). readable ctx f) fs)"
    by (auto simp: case_prod_beta intro: filter_cong)
qed

lemma safeSerializeStruct_drop_skipped:
  assumes "skipped ctx f v"
  shows "safeSerializeStruct snake ctx n fl (VStruct st (xs @ (f, v) # ys)) out
       = safeSerializeStruct snake ctx n fl (VStruct st (xs @ ys)) out"
  by (rule safeSerializeStruct_same_unskipped) (simp add: assms)

lemma emittedNames_Cons:
  "emittedNames snake ctx ((f, v) # fs) =
     (if emitted ctx f v then insert (wireName snake f) (emittedNames snake ctx fs)
      else emittedNames snake ctx fs)"
  by (simp add: emittedNames_def)

lemma emittedNames_iff:
  "k \<in> emittedNames snake ctx fs \<longleftrightarrow> (\<exists>(f, v) \<in> set fs. emitted ctx f v \<and> wireName snake f = k)"
  by (auto simp: emittedNames_def)

lemma keys_through: "A \<subseteq> B \<Longrightarrow> B \<union> C \<subseteq> D \<Longrightarrow> A \<union> C \<subseteq> D"
  by blast

lemma keys_bound: "B \<subseteq> A \<union> E \<Longrightarrow> D \<subseteq> B \<union> E \<Longrightarrow> D \<subseteq> A \<union> E"
  by blast

lemma keys_insert: "insert k A \<union> C \<subseteq> D \<Longrightarrow> A \<union> insert k C \<subseteq> D"
  by blast

lemma keys_insert_bound: "D \<subseteq> insert k A \<union> E \<Longrightarrow> k \<in> E \<Longrightarrow> D \<subseteq> A \<union> E"
  by blast

lemma structLoop_keys:
  assumes self: "\<And>out w. self out = Some (Value w) \<Longrightarrow>
      \<exists>m. w = WMap m \<and> fst ` set out \<subseteq> fst ` set m \<and> fst ` set m \<subseteq> fst ` set out \<union> E"
    and sub: "emittedNames snake ctx fs \<subseteq> E"
    and res: "structLoop snake ctx ser self fs out = Some (Value w)"
  shows "\<exists>m. w = WMap m \<and> fst ` set out \<union> emittedNames snake ctx fs \<subseteq> fst ` set m \<and>
             fst ` set m \<subseteq> fst ` set out \<union> E"
  using sub res
proof (induction fs arbitrary: out)
  case Nil
  then show ?case by (auto simp: emittedNames_def)
next
  case (Cons a fs)
  obtain f v where a: "a = (f, v)" by (cases a)
  have sub': "emittedNames snake ctx fs \<subseteq> E"
    using Cons.prems(1) by (auto simp: a emittedNames_Cons split: if_splits)
  note IH = Cons.IH [OF sub']
  note res = Cons.prems(2) [unfolded a structLoop_Cons]
  consider (skip) "\<not> readable ctx f \<or> jsonName f = ''-'' \<or> (omitEmpty f \<and> isEmpty v)"
    | (anon) "readable ctx f" "jsonName f \<noteq> ''-''" "\<not> (omitEmpty f \<and> isEmpty v)"
        "jsonName f = [] \<and> Name f = []"
    | (emit) "emitted ctx f v"
    by (auto simp: emitted_def)
  then show ?case
  proof cases
    case skip
    then have ne: "\<not> emitted ctx f v" by (auto simp: emitted_def)
    from skip res have "structLoop snake ctx ser self fs out = Some (Value w)"
      by (auto split: if_splits)
    from IH [OF this] show ?thesis by (simp add: a emittedNames_Cons ne)
  next
    case anon
    then have ne: "\<not> emitted ctx f v" by (auto simp: emitted_def)
    from anon res obtain w0 where s0: "self out = Some (Value w0)"
      and r0: "structLoop snake ctx ser self fs (case w0 of WMap m \<Rightarrow> m | _ \<Rightarrow> out) = Some (Value w)"
      by (auto split: option.splits result.splits)
    from self [OF s0] obtain m0 where m0: "w0 = WMap m0" "fst ` set out \<subseteq> fst ` set m0"
      "fst ` set m0 \<subseteq> fst ` set out \<union> E" by blast
    from r0 m0 have "structLoop snake ctx ser self fs m0 = Some (Value w)" by simp
    from IH [OF this] obtain m where m: "w = WMap m"
      "fst ` set m0 \<union> emittedNames snake ctx fs \<subseteq> fst ` set m"
      "fst ` set m \<subseteq> fst ` set m0 \<union> E" by blast
    have en: "emittedNames snake ctx (a # fs) = emittedNames snake ctx fs"
      by (simp add: a emittedNames_Cons ne)
    have A: "fst ` set out \<union> emittedNames snake ctx fs \<subseteq> fst ` set m"
      by (rule keys_through [OF m0(2) m(2)])
    have B: "fst ` set m \<subseteq> fst ` set out \<union> E"
      by (rule keys_bound [OF m0(3) m(3)])
    show ?thesis unfolding en by (rule exI [of _ m]) (intro conjI m(1) A B)
  next
    case emit
    then have c: "readable ctx f" "jsonName f \<noteq> ''-''" "\<not> (omitEmpty f \<and> isEmpty v)"
      "\<not> (jsonName f = [] \<and> Name f = [])" by (auto simp: emitted_def)
    from c res obtain val where
      r0: "structLoop snake ctx ser self fs (AList.update (wireName snake f) val out) = Some (Value w)"
      by (auto split: option.splits result.splits)
    have inE: "wireName snake f \<in> E"
      using Cons.prems(1) emit by (auto simp: a emittedNames_Cons)
    from IH [OF r0] obtain m where m: "w = WMap m"
      "fst ` set (AList.update (wireName snake f) val out) \<union> emittedNames snake ctx fs \<subseteq> fst ` set m"
      "fst ` set m \<subseteq> fst ` set (AList.update (wireName snake f) val out) \<union> E" by blast
    have en: "emittedNames snake ctx (a # fs) = insert (wireName snake f) (emittedNames snake ctx fs)"
      by (simp add: a emittedNames_Cons emit)
    have up: "fst ` set (AList.update (wireName snake f) val out) = insert (wireName snake f) (fst ` set out)"
      by (simp add: dom_update)
    have A: "fst ` set out \<union> insert (wireName snake f) (emittedNames snake ctx fs) \<subseteq> fst ` set m"
      by (rule keys_insert [OF m(2) [unfolded up]])
    have B: "fst ` set m \<subseteq> fst ` set out \<union> E"
      by (rule keys_insert_bound [OF m(3) [unfolded up] inE])
    show ?thesis unfolding en by (rule exI [of _ m]) (intro conjI m(1) A B)
  qed
qed

lemma safeSerializeStruct_keys:
  "safeSerializeStruct snake ctx n fl src out = Some (Value w) \<Longrightarrow>
   \<exists>fs m. fieldsOf src = Some fs \<and> w = WMap m \<and>
     fst ` set m = fst ` set (case out of None \<Rightarrow> [] | Some m \<Rightarrow> m) \<union> emittedNames snake ctx fs"
proof (induction n arbitrary: out w)
  case 0
  then show ?case by simp
next
  case (Suc n)
  define out0 where "out0 = (case out of None \<Rightarrow> [] | Some m \<Rightarrow> m)"
  from Suc.prems obtain fs where fs: "fieldsOf src = Some fs"
    and res: "structLoop snake ctx (\<lambda>field x. safeSerialize snake ctx n (fieldFlag fl field) x)
        (\<lambda>m. safeSerializeStruct snake ctx n fl src (Some m)) fs out0 = Some (Value w)"
    by (auto simp: out0_def split: option.splits)
  have self: "\<exists>m. w' = WMap m \<and> fst ` set out' \<subseteq> fst ` set m \<and>
        fst ` set m \<subseteq> fst ` set out' \<union> emittedNames snake ctx fs"
    if "safeSerializeStruct snake ctx n fl src (Some out') = Some (Value w')" for out' w'
    using Suc.IH [OF that] fs by auto
  have "emittedNames snake ctx fs \<subseteq> emittedNames snake ctx fs" by simp
  from structLoop_keys [where E = "emittedNames snake ctx fs", OF self this res]
  obtain m where m: "w = WMap m"
      "fst ` set out0 \<union> emittedNames snake ctx fs \<subseteq> fst ` set m"
      "fst ` set m \<subseteq> fst ` set out0 \<union> emittedNames snake ctx fs"
    by blast
  then have "fst ` set m = fst ` set out0 \<union> emittedNames snake ctx fs"
    by (intro equalityI)
  with fs m(1) show ?case unfolding out0_def by (intro exI [of _ fs] exI [of _ m] conjI)
qed

lemma safeSerialize_struct_keys:
  assumes "safeSerialize snake ctx n fl (Some (VStruct st fs)) = Some (Value (WMap m))"
  shows "fst ` set m = emittedNames snake ctx fs"
proof -
  from assms obtain k where n: "n = Suc k" by (cases n) simp_all
  from assms have nm: "\<not> marshalsText st" unfolding n by (auto split: if_splits)
  with assms have "safeSerializeStruct snake ctx k fl (VStruct st fs) None = Some (Value (WMap m))"
    unfolding n by (auto split: if_splits)
  from safeSerializeStruct_keys [OF this] show ?thesis by simp
qed

section \<open>The merger: lemmas\<close>

lemma safeMerge_struct:
  "safeMerge ctx sfl src dfl (VStruct st fs) =
     (case mergeLoop ctx sfl src dfl 0 fs of (err, fs') \<Rightarrow> (err, VStruct st fs'))"
  by simp

lemma safeMerge_not_struct:
  "kindOf dst \<noteq> KStruct \<Longrightarrow> safeMerge ctx sfl src dfl dst = (Panic, dst)"
  by (cases dst) simp_all

declare safeMerge.simps [simp del]

lemma mergeLoop_Cons:
  "mergeLoop ctx sfl src dfl i ((field, dstField) # rest) =
     (if writable ctx field then
        (case Field src i of
           None \<Rightarrow> (Panic, (field, dstField) # rest)
         | Some srcField \<Rightarrow>
             if isRecursibleType srcField then
               (case safeMerge ctx (flagOfField sfl src i) srcField (fieldFlag dfl field) dstField of
                  (Nil, d) \<Rightarrow>
                    (case mergeLoop ctx sfl src dfl (i + 1) rest of
                       (err, rest') \<Rightarrow> (err, (field, d) # rest'))
                | (err, d) \<Rightarrow> (err, (field, d) # rest))
             else if flagRO (fieldFlag dfl field) \<or> flagRO (flagOfField sfl src i) then
               (Panic, (field, dstField) # rest)
             else
               (case mergeLoop ctx sfl src dfl (i + 1) rest of
                  (err, rest') \<Rightarrow> (err, (field, srcField) # rest')))
      else
        (case mergeLoop ctx sfl src dfl (i + 1) rest of
           (err, rest') \<Rightarrow> (err, (field, dstField) # rest')))"
  unfolding writable_def writeRight_def by (simp add: Let_def)

declare mergeLoop.simps(2) [simp del]

lemma mergeLoop_descriptors: "map fst (snd (mergeLoop ctx sfl src dfl i fs)) = map fst fs"
proof (induction fs arbitrary: i)
  case Nil
  show ?case by simp
next
  case (Cons a fs)
  obtain f d where a: "a = (f, d)" by (cases a)
  show ?case
    unfolding a using Cons [of "i + 1"]
    by (auto simp: mergeLoop_Cons split: option.splits prod.splits outcome.splits)
qed

lemma mergeLoop_length: "length (snd (mergeLoop ctx sfl src dfl i fs)) = length fs"
  using mergeLoop_descriptors [of ctx sfl src dfl i fs] by (metis length_map)

lemma mergeLoop_unwritable:
  "j < length fs \<Longrightarrow> \<not> writable ctx (fst (fs ! j)) \<Longrightarrow>
   snd (mergeLoop ctx sfl src dfl i fs) ! j = fs ! j"
proof (induction fs arbitrary: i j)
  case Nil
  then show ?case by simp
next
  case (Cons a fs)
  obtain f d where a: "a = (f, d)" by (cases a)
  show ?case
  proof (cases j)
    case 0
    with Cons.prems show ?thesis
      by (simp add: a mergeLoop_Cons split: prod.splits)
  next
    case (Suc k)
    with Cons.prems have "snd (mergeLoop ctx sfl src dfl (i + 1) fs) ! k = fs ! k"
      by (intro Cons.IH) simp_all
    with Suc show ?thesis
      by (auto simp: a mergeLoop_Cons split: option.splits prod.splits outcome.splits)
  qed
qed

lemma mergeLoop_never_Err:
  assumes "\<And>f d s fl fl'. (f, d) \<in> set fs \<Longrightarrow> fst (safeMerge ctx fl s fl' d) \<noteq> Err e"
  shows "fst (mergeLoop ctx sfl src dfl i fs) \<noteq> Err e"
  using assms
proof (induction fs arbitrary: i)
  case Nil
  show ?case by simp
next
  case (Cons a fs)
  obtain f d where a: "a = (f, d)" by (cases a)
  have rest: "fst (mergeLoop ctx sfl src dfl (i + 1) fs) \<noteq> Err e"
  proof (rule Cons.IH)
    fix f' d' s fl fl'
    assume "(f', d') \<in> set fs"
    then have "(f', d') \<in> set (a # fs)" by simp
    then show "fst (safeMerge ctx fl s fl' d') \<noteq> Err e" by (rule Cons.prems)
  qed
  have "(f, d) \<in> set (a # fs)" by (simp add: a)
  then have "fst (safeMerge ctx fl s fl' d) \<noteq> Err e" for s fl fl'
    by (rule Cons.prems)
  then have here: "safeMerge ctx fl s fl' d \<noteq> (Err e, y)" for s y fl fl'
    by (metis fst_conv)
  show ?case
    unfolding a using rest
    by (auto simp: mergeLoop_Cons here split: option.splits prod.splits outcome.splits)
qed

lemma safeMerge_never_Err: "fst (safeMerge ctx sfl src dfl dst) \<noteq> Err e"
proof (induction dst arbitrary: src sfl dfl)
  case (VStruct st fs)
  have "fst (mergeLoop ctx sfl src dfl 0 fs) \<noteq> Err e"
  proof (rule mergeLoop_never_Err)
    fix f d s fl fl'
    assume "(f, d) \<in> set fs"
    then show "fst (safeMerge ctx fl s fl' d) \<noteq> Err e"
      by (intro VStruct.IH [of "(f, d)" d]) simp_all
  qed
  then show ?case by (cases "mergeLoop ctx sfl src dfl 0 fs") (simp add: safeMerge_struct)
qed (simp_all add: safeMerge_not_struct)

lemma sameType_struct_left:
  "sameType (VStruct st fs) d \<longleftrightarrow> (\<exists>fs'. d = VStruct st fs' \<and> sameFieldTypes fs fs')"
  by (cases d) auto

lemma sameType_struct_right:
  "sameType s (VStruct st fs) \<longleftrightarrow> (\<exists>fs'. s = VStruct st fs' \<and> sameFieldTypes fs' fs)"
  by (cases s) auto

lemma sameType_kindOf: "sameType a b \<Longrightarrow> kindOf a = kindOf b"
  by (cases a; cases b) simp_all

lemma sameType_recursible: "sameType a b \<Longrightarrow> isRecursibleType a = isRecursibleType b"
  by (cases a; cases b) simp_all

lemma sameFieldTypes_Cons_right:
  "sameFieldTypes xs ((f, d) # fs) \<longleftrightarrow>
     (\<exists>s ys. xs = (f, s) # ys \<and> sameType s d \<and> sameFieldTypes ys fs)"
  by (cases xs) auto

lemma Field_drop:
  "fieldsOf src = Some sfs \<Longrightarrow> drop i sfs = (f, s) # ys \<Longrightarrow>
   Field src i = Some s \<and> flagOfField fl src i = fieldFlag fl f"
proof -
  assume a: "fieldsOf src = Some sfs" and d: "drop i sfs = (f, s) # ys"
  from d have "i < length sfs" by (cases "i < length sfs") simp_all
  moreover from d this have "sfs ! i = (f, s)" by (metis nth_via_drop)
  moreover from a obtain st where "src = VStruct st sfs" by (cases src) simp_all
  ultimately show ?thesis by simp
qed

lemma drop_Suc_of_Cons: "drop i sfs = x # ys \<Longrightarrow> drop (Suc i) sfs = ys"
  by (metis drop_Suc tl_drop list.sel(3))

lemma mergeLoop_settable:
  assumes rec: "\<And>f d s. (f, d) \<in> set fs \<Longrightarrow> sameType s d \<Longrightarrow> isRecursibleType s \<Longrightarrow>
      settable ctx (fieldFlag fl f) d \<Longrightarrow>
      fst (safeMerge ctx (fieldFlag fl f) s (fieldFlag fl f) d) = Nil"
    and src: "fieldsOf src = Some sfs"
    and ty: "sameFieldTypes (drop i sfs) fs"
    and st: "settableFields ctx fl fs"
  shows "fst (mergeLoop ctx fl src fl i fs) = Nil"
  using rec ty st
proof (induction fs arbitrary: i)
  case Nil
  show ?case by simp
next
  case (Cons a fs)
  obtain f d where a: "a = (f, d)" by (cases a)
  from Cons.prems(2) obtain s ys where dr: "drop i sfs = (f, s) # ys"
    and sd: "sameType s d" and ys: "sameFieldTypes ys fs"
    unfolding a sameFieldTypes_Cons_right by blast
  have fld: "Field src i = Some s" and flg: "flagOfField fl src i = fieldFlag fl f"
    using Field_drop [OF src dr] by simp_all
  have rc: "isRecursibleType d = isRecursibleType s"
    using sameType_recursible [OF sd] by simp
  from Cons.prems(3) have sf: "settableFields ctx fl fs"
    and hd: "writable ctx f \<Longrightarrow> isRecursibleType s \<Longrightarrow> settable ctx (fieldFlag fl f) d"
    and hd': "writable ctx f \<Longrightarrow> \<not> isRecursibleType s \<Longrightarrow> \<not> flagRO (fieldFlag fl f)"
    unfolding a by (simp_all add: rc)
  have "sameFieldTypes (drop (i + 1) sfs) fs"
    using ys drop_Suc_of_Cons [OF dr] by simp
  moreover have "fst (safeMerge ctx (fieldFlag fl f') s' (fieldFlag fl f') d') = Nil"
    if "(f', d') \<in> set fs" "sameType s' d'" "isRecursibleType s'"
      "settable ctx (fieldFlag fl f') d'" for f' d' s'
  proof -
    from that(1) have "(f', d') \<in> set (a # fs)" by simp
    then show ?thesis using that(2,3,4) by (rule Cons.prems(1))
  qed
  ultimately have rest: "fst (mergeLoop ctx fl src fl (i + 1) fs) = Nil"
    using sf by (intro Cons.IH)
  have here: "fst (safeMerge ctx (fieldFlag fl f) s (fieldFlag fl f) d) = Nil"
    if "writable ctx f" "isRecursibleType s"
  proof -
    have "(f, d) \<in> set (a # fs)" by (simp add: a)
    then show ?thesis using sd that(2) hd [OF that] by (rule Cons.prems(1))
  qed
  show ?case
    unfolding a using rest here hd' fld flg
    by (cases "mergeLoop ctx fl src fl (i + 1) fs";
        cases "safeMerge ctx (fieldFlag fl f) s (fieldFlag fl f) d")
       (auto simp: mergeLoop_Cons)
qed

lemma safeMerge_settable:
  "sameType src dst \<Longrightarrow> kindOf dst = KStruct \<Longrightarrow> settable ctx fl dst \<Longrightarrow>
   fst (safeMerge ctx fl src fl dst) = Nil"
proof (induction dst arbitrary: src fl)
  case (VStruct st fs)
  from VStruct.prems(1) obtain sfs where src: "src = VStruct st sfs"
    and ty: "sameFieldTypes sfs fs"
    unfolding sameType_struct_right by blast
  have "fst (mergeLoop ctx fl src fl 0 fs) = Nil"
  proof (rule mergeLoop_settable)
    fix f d s
    assume mem: "(f, d) \<in> set fs" and sd: "sameType s d" and r: "isRecursibleType s"
      and se: "settable ctx (fieldFlag fl f) d"
    from r have "kindOf s = KStruct" by (cases s) simp_all
    with sd have "kindOf d = KStruct" by (simp add: sameType_kindOf [symmetric])
    with mem sd se show "fst (safeMerge ctx (fieldFlag fl f) s (fieldFlag fl f) d) = Nil"
      by (intro VStruct.IH [of "(f, d)" d]) simp_all
  next
    show "fieldsOf src = Some sfs" by (simp add: src)
    show "sameFieldTypes (drop 0 sfs) fs" using ty by simp
    show "settableFields ctx fl fs" using VStruct.prems(3) by simp
  qed
  then show ?case by (cases "mergeLoop ctx fl src fl 0 fs") (simp add: safeMerge_struct)
qed simp_all

lemma mergeLoop_fields:
  assumes "mergeLoop ctx sfl src dfl i fs = (Nil, fs')" and "j < length fs"
  shows "fst (fs' ! j) = fst (fs ! j) \<and>
     (\<not> writable ctx (fst (fs ! j)) \<longrightarrow> snd (fs' ! j) = snd (fs ! j)) \<and>
     (writable ctx (fst (fs ! j)) \<longrightarrow>
        (\<exists>s. Field src (i + j) = Some s \<and>
           (if isRecursibleType s then
              safeMerge ctx (flagOfField sfl src (i + j)) s (fieldFlag dfl (fst (fs ! j)))
                (snd (fs ! j)) = (Nil, snd (fs' ! j))
            else snd (fs' ! j) = s)))"
  using assms
proof (induction fs arbitrary: i j fs')
  case Nil
  then show ?case by simp
next
  case (Cons a fs)
  obtain f d where a: "a = (f, d)" by (cases a)
  from Cons.prems(1) obtain d' rest' where fs': "fs' = (f, d') # rest'"
    and rest: "mergeLoop ctx sfl src dfl (i + 1) fs = (Nil, rest')"
    and head: "\<not> writable ctx f \<longrightarrow> d' = d"
      "writable ctx f \<longrightarrow> (\<exists>s. Field src i = Some s \<and>
          (if isRecursibleType s then
             safeMerge ctx (flagOfField sfl src i) s (fieldFlag dfl f) d = (Nil, d')
           else d' = s))"
    unfolding a
    by (auto simp: mergeLoop_Cons split: if_splits option.splits prod.splits outcome.splits)
  show ?case
  proof (cases j)
    case 0
    then have e: "(a # fs) ! j = (f, d)" "fs' ! j = (f, d')" "i + j = i"
      by (simp_all add: a fs')
    show ?thesis unfolding e fst_conv snd_conv using head by blast
  next
    case (Suc k)
    with Cons.prems(2) have "k < length fs" by simp
    have e: "(a # fs) ! j = fs ! k" "fs' ! j = rest' ! k" "i + j = i + 1 + k"
      by (simp_all add: fs' Suc)
    from Cons.IH [OF rest \<open>k < length fs\<close>] show ?thesis unfolding e .
  qed
qed

lemma mergeLoop_allWritable:
  assumes rec: "\<And>f d s. (f, d) \<in> set fs \<Longrightarrow> sameType s d \<Longrightarrow> isRecursibleType s \<Longrightarrow>
      allWritable ctx s \<Longrightarrow> settable ctx (fieldFlag fl f) d \<Longrightarrow>
      safeMerge ctx (fieldFlag fl f) s (fieldFlag fl f) d = (Nil, s)"
    and src: "fieldsOf src = Some sfs"
    and ty: "sameFieldTypes (drop i sfs) fs"
    and aw: "allWritableFields ctx (drop i sfs)"
    and st: "settableFields ctx fl fs"
  shows "mergeLoop ctx fl src fl i fs = (Nil, drop i sfs)"
  using rec ty aw st
proof (induction fs arbitrary: i)
  case Nil
  then show ?case by (cases "drop i sfs") simp_all
next
  case (Cons a fs)
  obtain f d where a: "a = (f, d)" by (cases a)
  from Cons.prems(2) obtain s ys where dr: "drop i sfs = (f, s) # ys"
    and sd: "sameType s d" and ys: "sameFieldTypes ys fs"
    unfolding a sameFieldTypes_Cons_right by blast
  have fld: "Field src i = Some s" and flg: "flagOfField fl src i = fieldFlag fl f"
    using Field_drop [OF src dr] by simp_all
  have rc: "isRecursibleType d = isRecursibleType s"
    using sameType_recursible [OF sd] by simp
  have dr': "drop (i + 1) sfs = ys" using drop_Suc_of_Cons [OF dr] by simp
  from Cons.prems(3) have w: "writable ctx f" and ws: "isRecursibleType s \<Longrightarrow> allWritable ctx s"
    and wys: "allWritableFields ctx ys"
    unfolding dr by simp_all
  from Cons.prems(4) w have sf: "settableFields ctx fl fs"
    and hd: "isRecursibleType s \<Longrightarrow> settable ctx (fieldFlag fl f) d"
    and hd': "\<not> isRecursibleType s \<Longrightarrow> \<not> flagRO (fieldFlag fl f)"
    unfolding a by (simp_all add: rc)
  have "safeMerge ctx (fieldFlag fl f') s' (fieldFlag fl f') d' = (Nil, s')"
    if "(f', d') \<in> set fs" "sameType s' d'" "isRecursibleType s'" "allWritable ctx s'"
      "settable ctx (fieldFlag fl f') d'" for f' d' s'
  proof -
    from that(1) have "(f', d') \<in> set (a # fs)" by simp
    then show ?thesis using that(2,3,4,5) by (rule Cons.prems(1))
  qed
  then have rest: "mergeLoop ctx fl src fl (i + 1) fs = (Nil, ys)"
    using Cons.IH [of "i + 1"] ys wys sf unfolding dr' by blast
  have here: "safeMerge ctx (fieldFlag fl f) s (fieldFlag fl f) d = (Nil, s)"
    if "isRecursibleType s"
  proof -
    have "(f, d) \<in> set (a # fs)" by (simp add: a)
    then show ?thesis using sd that ws [OF that] hd [OF that] by (rule Cons.prems(1))
  qed
  show ?case
    unfolding a dr using rest here hd' fld flg w by (simp add: mergeLoop_Cons)
qed

lemma safeMerge_allWritable:
  "allWritable ctx src \<Longrightarrow> sameType src dst \<Longrightarrow> kindOf dst = KStruct \<Longrightarrow>
   settable ctx fl dst \<Longrightarrow> safeMerge ctx fl src fl dst = (Nil, src)"
proof (induction dst arbitrary: src fl)
  case (VStruct st fs)
  from VStruct.prems(2) obtain sfs where src: "src = VStruct st sfs"
    and ty: "sameFieldTypes sfs fs"
    unfolding sameType_struct_right by blast
  have "mergeLoop ctx fl src fl 0 fs = (Nil, drop 0 sfs)"
  proof (rule mergeLoop_allWritable)
    fix f d s
    assume mem: "(f, d) \<in> set fs" and sd: "sameType s d" and r: "isRecursibleType s"
      and aw: "allWritable ctx s" and se: "settable ctx (fieldFlag fl f) d"
    from r have "kindOf s = KStruct" by (cases s) simp_all
    with sd have "kindOf d = KStruct" by (simp add: sameType_kindOf [symmetric])
    with mem sd aw se show "safeMerge ctx (fieldFlag fl f) s (fieldFlag fl f) d = (Nil, s)"
      by (intro VStruct.IH [of "(f, d)" d]) simp_all
  next
    show "fieldsOf src = Some sfs" by (simp add: src)
    show "sameFieldTypes (drop 0 sfs) fs" using ty by simp
    show "allWritableFields ctx (drop 0 sfs)" using VStruct.prems(1) by (simp add: src)
    show "settableFields ctx fl fs" using VStruct.prems(4) by simp
  qed
  then show ?case by (simp add: safeMerge_struct src)
qed simp_all

lemma kindOf_zeroValue: "kindOf (zeroValue v) = kindOf v"
  by (cases v) simp_all

lemma sameFieldTypes_zero:
  assumes "\<And>f v s. (f, v) \<in> set fs \<Longrightarrow> sameType s v \<Longrightarrow> sameType s (zeroValue v)"
  shows "sameFieldTypes xs fs \<Longrightarrow> sameFieldTypes xs (map (\<lambda>(f, v). (f, zeroValue v)) fs)"
  using assms
proof (induction fs arbitrary: xs)
  case Nil
  then show ?case by simp
next
  case (Cons a fs)
  obtain f v where a: "a = (f, v)" by (cases a)
  from Cons.prems(1) obtain s ys where xs: "xs = (f, s) # ys" and sv: "sameType s v"
    and ys: "sameFieldTypes ys fs"
    unfolding a sameFieldTypes_Cons_right by blast
  have "(f, v) \<in> set (a # fs)" by (simp add: a)
  then have h: "sameType s (zeroValue v)" using sv by (rule Cons.prems(2))
  have "sameFieldTypes ys (map (\<lambda>(f, v). (f, zeroValue v)) fs)"
  proof (rule Cons.IH [OF ys])
    fix f' v' s'
    assume "(f', v') \<in> set fs" and t: "sameType s' v'"
    then have "(f', v') \<in> set (a # fs)" by simp
    then show "sameType s' (zeroValue v')" using t by (rule Cons.prems(2))
  qed
  with h show ?case by (simp add: a xs)
qed

lemma sameType_not_struct: "kindOf b \<noteq> KStruct \<Longrightarrow> sameType a b = (kindOf a = kindOf b)"
  by (cases a; cases b) simp_all

lemma sameType_zeroValue: "sameType s v \<Longrightarrow> sameType s (zeroValue v)"
proof (induction v arbitrary: s)
  case (VStruct st fs)
  from VStruct.prems obtain sfs where s: "s = VStruct st sfs" and ty: "sameFieldTypes sfs fs"
    unfolding sameType_struct_right by blast
  have "sameFieldTypes sfs (map (\<lambda>(f, v). (f, zeroValue v)) fs)"
  proof (rule sameFieldTypes_zero [OF _ ty])
    fix f v s'
    assume "(f, v) \<in> set fs" and "sameType s' v"
    then show "sameType s' (zeroValue v)"
      by (intro VStruct.IH [of "(f, v)" v]) simp_all
  qed
  then show ?case by (simp add: s)
qed (simp_all add: sameType_not_struct)

lemma unauthenticated_readable: "principal ctx = None \<Longrightarrow> readable ctx f \<longleftrightarrow> readRight f = []"
  by (simp add: readable_def HasRight_def)

lemma unauthenticated_writable: "principal ctx = None \<Longrightarrow> writable ctx f \<longleftrightarrow> writeRight f = []"
  by (simp add: writable_def HasRight_def)

lemma safeMerge_unwritable_field:
  assumes "j < length fs" and "\<not> writable ctx (fst (fs ! j))"
  shows "Field (snd (safeMerge ctx sfl src dfl (VStruct st fs))) j = Some (snd (fs ! j))"
proof -
  obtain err fs' where m: "mergeLoop ctx sfl src dfl 0 fs = (err, fs')"
    by (cases "mergeLoop ctx sfl src dfl 0 fs")
  have "length fs' = length fs" using mergeLoop_length [of ctx sfl src dfl 0 fs] m by simp
  moreover have "fs' ! j = fs ! j"
    using mergeLoop_unwritable [OF assms, of sfl src dfl 0] m by simp
  ultimately show ?thesis using assms(1) by (simp add: safeMerge_struct m)
qed

lemma nameless_field_never_returns:
  "safeSerializeStruct snake ctx n fl
     (VStruct st ((\<lparr>Name = [], PkgPath = p, Tag = [], Anonymous = True\<rparr>, v) # rest)) out = None"
proof (induction n arbitrary: out)
  case 0
  show ?case by simp
next
  case (Suc n)
  show ?case by (simp add: structLoop_Cons Suc eval_simps)
qed

lemmas flag_simps = flagRO_def flag_ro_def fieldFlag_def

section \<open>The claims\<close>

text \<open>
  C1. The claim as stated, that the wire name of a field whose read right the caller lacks is
  never in the output tree, fails when another field resolves to the same wire name: the
  tree then has that name, with the other field's value.
\<close>

theorem read_gate_wire_name_collision:
  "readRight (fld ''A'' [(''json'', ''x''), (''readWrite'', ''admin'')]) = ''admin''
   \<and> \<not> HasRight unauthenticated ''admin''
   \<and> wireName (\<lambda>s. s) (fld ''A'' [(''json'', ''x''), (''readWrite'', ''admin'')]) = ''x''
   \<and> safeSerialize (\<lambda>s. s) unauthenticated (Suc (Suc (Suc 0))) RW
        (Some (VStruct plain
           [(fld ''A'' [(''json'', ''x''), (''readWrite'', ''admin'')], VString ''a''),
            (fld ''B'' [(''json'', ''x'')], VString ''b'')]))
       = Some (Value (WMap [(''x'', WLeaf (VString ''b''))]))"
  by (simp add: eval_simps flag_simps)

text \<open>
  C1, as amended. The serializer builds for a record the tree it builds for the record without
  the fields whose read right the caller lacks. When the result is a tree, the wire name of
  such a field is in it only if a field that is emitted resolves to the same wire name; and
  a field with no read right is in the tree, under its wire name, unless it is suppressed by
  the name \<^verbatim>\<open>-\<close>, omitted as empty, or has neither a wire name nor a name.
\<close>

theorem safeSerialize_read_gate:
  "safeSerializeStruct snake ctx n fl (VStruct st fs) out =
     safeSerializeStruct snake ctx n fl (VStruct st (filter (\<lambda>(f, v). readable ctx f) fs)) out
   \<and> (safeSerialize snake ctx n fl (Some (VStruct st fs)) = Some (Value (WMap m)) \<longrightarrow>
        (\<forall>(f, v) \<in> set fs.
           (\<not> readable ctx f \<and> wireName snake f \<in> fst ` set m \<longrightarrow>
              (\<exists>(g, u) \<in> set fs. emitted ctx g u \<and> wireName snake g = wireName snake f))
         \<and> (readRight f = [] \<and> jsonName f \<noteq> ''-'' \<and> \<not> (omitEmpty f \<and> isEmpty v) \<and>
              \<not> (jsonName f = [] \<and> Name f = []) \<longrightarrow> wireName snake f \<in> fst ` set m)))"
proof (intro conjI impI)
  show "safeSerializeStruct snake ctx n fl (VStruct st fs) out =
     safeSerializeStruct snake ctx n fl (VStruct st (filter (\<lambda>(f, v). readable ctx f) fs)) out"
    by (rule safeSerializeStruct_filter_readable)
next
  assume "safeSerialize snake ctx n fl (Some (VStruct st fs)) = Some (Value (WMap m))"
  then have keys: "fst ` set m = emittedNames snake ctx fs"
    by (rule safeSerialize_struct_keys)
  show "\<forall>(f, v) \<in> set fs.
           (\<not> readable ctx f \<and> wireName snake f \<in> fst ` set m \<longrightarrow>
              (\<exists>(g, u) \<in> set fs. emitted ctx g u \<and> wireName snake g = wireName snake f))
         \<and> (readRight f = [] \<and> jsonName f \<noteq> ''-'' \<and> \<not> (omitEmpty f \<and> isEmpty v) \<and>
              \<not> (jsonName f = [] \<and> Name f = []) \<longrightarrow> wireName snake f \<in> fst ` set m)"
    unfolding keys emittedNames_iff
    by (auto simp: emitted_def readable_def)
qed

theorem safeSerialize_read_gate_witness:
  "safeSerialize (\<lambda>s. s) unauthenticated (Suc (Suc (Suc 0))) RW
        (Some (VStruct plain
           [(fld ''Name'' [(''json'', ''name'')], VString ''n''),
            (fld ''Secret'' [(''json'', ''secret''), (''readWrite'', ''admin'')], VString ''s'')]))
       = Some (Value (WMap [(''name'', WLeaf (VString ''n''))]))
   \<and> \<not> readable unauthenticated (fld ''Secret'' [(''json'', ''secret''), (''readWrite'', ''admin'')])
   \<and> ''secret'' \<notin> fst ` set [(''name'', WLeaf (VString ''n''))]
   \<and> readRight (fld ''Name'' [(''json'', ''name'')]) = []
   \<and> ''name'' \<in> fst ` set [(''name'', WLeaf (VString ''n''))]
   \<and> safeSerializeStruct (\<lambda>s. s) unauthenticated (Suc (Suc 0)) RW (VStruct plain
           [(fld ''Name'' [(''json'', ''name'')], VString ''n''),
            (fld ''Secret'' [(''json'', ''secret''), (''readWrite'', ''admin'')], VString ''s'')]) None
     = safeSerializeStruct (\<lambda>s. s) unauthenticated (Suc (Suc 0)) RW (VStruct plain
           [(fld ''Name'' [(''json'', ''name'')], VString ''n'')]) None"
  using safeSerialize_read_gate [of "\<lambda>s. s" unauthenticated "Suc (Suc (Suc 0))" RW plain
      "[(fld ''Name'' [(''json'', ''name'')], VString ''n''),
        (fld ''Secret'' [(''json'', ''secret''), (''readWrite'', ''admin'')], VString ''s'')]"
      None "[(''name'', WLeaf (VString ''n''))]"]
  by (simp add: eval_simps flag_simps)


text \<open>
  C3. The claim: the fields of an embedded struct are flattened into the enclosing tree. The
  code does not do this. \<^verbatim>\<open>reflect\<close> gives an embedded field the name of its type, so the test
  \<^verbatim>\<open>name == "" && field.Name == ""\<close> fails for it, and the struct is serialized as a tree of its
  own under the snake-cased type name: for \<open>Outer{Inner{A: "x"}}\<close> the result is
  \<open>{inner: {a: "x"}}\<close>, not \<open>{a: "x"}\<close>. (For a field with neither a wire name nor a name the
  branch calls \<^verbatim>\<open>safeSerializeStruct(src, out)\<close> on the struct itself and never returns.)
\<close>

theorem embedded_struct_is_nested:
  "safeSerialize snake ctx (Suc (Suc (Suc (Suc (Suc n))))) RW
     (Some (VStruct plain
        [(\<lparr>Name = ''Inner'', PkgPath = [], Tag = [], Anonymous = True\<rparr>,
          VStruct plain [(fld ''A'' [(''json'', ''a'')], VString ''x'')])]))
   = Some (Value (WMap [(snake ''Inner'', WMap [(''a'', WLeaf (VString ''x''))])]))"
  by (simp add: eval_simps flag_simps)

text \<open>
  C4. The claim: a nil pointer field that the serializer reaches is emitted as a wire null,
  without a fault. The code does not do this: \<^verbatim>\<open>src.Elem()\<close> of a nil pointer is the zero
  Value, and the recursive call panics in \<^verbatim>\<open>src.Type()\<close>.
\<close>

theorem nil_pointer_field_panics:
  "safeSerialize snake ctx (Suc (Suc (Suc (Suc n)))) RW
     (Some (VStruct plain [(fld ''P'' [(''json'', ''p'')], VPtr None)]))
   = Some Panics"
  by (simp add: eval_simps flag_simps)

text \<open>
  C5. When the decode of the body into the scratch instance fails, \<^verbatim>\<open>ReadJSON\<close> returns that
  error and the target is unchanged.
\<close>

theorem ReadJSON_decode_error:
  "ReadJSONUnsafe (zeroValue v) = Inl err \<Longrightarrow> ReadJSON ctx ReadJSONUnsafe v = (Err err, v)"
  by (simp add: ReadJSON_def)

theorem ReadJSON_decode_error_witness:
  "(\<lambda>ru. Inl ''unexpected end of JSON input'')
      (zeroValue (VStruct plain [(fld ''Name'' [(''json'', ''name'')], VString ''old'')]))
     = (Inl ''unexpected end of JSON input'' :: error + val)
   \<and> ReadJSON (holding [''admin'']) (\<lambda>ru. Inl ''unexpected end of JSON input'')
        (VStruct plain [(fld ''Name'' [(''json'', ''name'')], VString ''old'')])
     = (Err ''unexpected end of JSON input'',
        VStruct plain [(fld ''Name'' [(''json'', ''name'')], VString ''old'')])"
  using ReadJSON_decode_error [of "\<lambda>ru. Inl ''unexpected end of JSON input''"
      "VStruct plain [(fld ''Name'' [(''json'', ''name'')], VString ''old'')]"
      "''unexpected end of JSON input''" "holding [''admin'']"]
  by simp

text \<open>
  C6. The claim: on an authenticated context whose rights contain \<open>name\<close>, \<open>RemoveRight name\<close>
  makes \<open>HasRight name\<close> false. The code does not do this: with the rights
  \<open>[a, b, c]\<close> the binary search for \<open>a\<close> probes index 1, then index 2, finds the predicate
  false at both and returns 3, so nothing is removed and \<open>HasRight a\<close> still holds.
\<close>

theorem RemoveRight_keeps_first_of_three:
  "RemoveRight \<lparr>principal = Some \<lparr>Username = ''u'', UserID = 1, Rights = [''a'', ''b'', ''c'']\<rparr>\<rparr> ''a''
     = \<lparr>principal = Some \<lparr>Username = ''u'', UserID = 1, Rights = [''a'', ''b'', ''c'']\<rparr>\<rparr>
   \<and> HasRight (RemoveRight \<lparr>principal = Some \<lparr>Username = ''u'', UserID = 1,
         Rights = [''a'', ''b'', ''c'']\<rparr>\<rparr> ''a'') ''a''"
  by (simp add: RemoveRight_def HasRight_def Search_def Search_loop.simps Let_def)

text \<open>
  C7. On a context with no principal \<^verbatim>\<open>HasRight\<close> is false for every right. So the serializer
  builds for a record the tree it builds for the record without its read-gated fields, every
  key of a resulting tree is the wire name of a field with no read right, and the merger
  leaves every write-gated field of the target at its prior value.
\<close>

theorem unauthenticated_denies:
  "principal ctx = None \<Longrightarrow>
     \<not> HasRight ctx right
   \<and> safeSerializeStruct snake ctx n fl (VStruct st fs) out
       = safeSerializeStruct snake ctx n fl (VStruct st (filter (\<lambda>(f, v). readRight f = []) fs)) out
   \<and> (safeSerialize snake ctx n fl (Some (VStruct st fs)) = Some (Value (WMap m)) \<longrightarrow>
        (\<forall>k \<in> fst ` set m. \<exists>(f, v) \<in> set fs. readRight f = [] \<and> wireName snake f = k))
   \<and> (\<forall>j < length fs. writeRight (fst (fs ! j)) \<noteq> [] \<longrightarrow>
        Field (snd (safeMerge ctx sfl src dfl (VStruct st fs))) j = Some (snd (fs ! j)))"
proof (intro conjI impI allI ballI)
  assume un: "principal ctx = None"
  show "\<not> HasRight ctx right" using un by (rule HasRight_unauthenticated)
  have "(\<lambda>(f, v). readable ctx f) = (\<lambda>(f, v :: val). readRight f = [])"
    using un by (simp add: unauthenticated_readable)
  then show "safeSerializeStruct snake ctx n fl (VStruct st fs) out
       = safeSerializeStruct snake ctx n fl (VStruct st (filter (\<lambda>(f, v). readRight f = []) fs)) out"
    using safeSerializeStruct_filter_readable [of snake ctx n fl st fs out] by simp
  {
    fix k
    assume "safeSerialize snake ctx n fl (Some (VStruct st fs)) = Some (Value (WMap m))"
      and "k \<in> fst ` set m"
    then have "k \<in> emittedNames snake ctx fs" by (simp add: safeSerialize_struct_keys)
    then obtain f v where "(f, v) \<in> set fs" "emitted ctx f v" "wireName snake f = k"
      unfolding emittedNames_iff by blast
    moreover from this have "readRight f = []"
      using un by (simp add: emitted_def unauthenticated_readable)
    ultimately show "\<exists>(f, v) \<in> set fs. readRight f = [] \<and> wireName snake f = k" by blast
  }
  {
    fix j
    assume "j < length fs" and "writeRight (fst (fs ! j)) \<noteq> []"
    then show "Field (snd (safeMerge ctx sfl src dfl (VStruct st fs))) j = Some (snd (fs ! j))"
      using un by (intro safeMerge_unwritable_field) (simp_all add: unauthenticated_writable)
  }
qed

theorem unauthenticated_denies_witness:
  "principal unauthenticated = None
   \<and> \<not> HasRight unauthenticated ''admin''
   \<and> safeSerialize (\<lambda>s. s) unauthenticated (Suc (Suc (Suc 0))) RW
        (Some (VStruct plain
           [(fld ''Name'' [(''json'', ''name'')], VString ''n''),
            (fld ''Secret'' [(''json'', ''secret''), (''readWrite'', ''admin''),
               (''writeRight'', ''admin'')], VString ''s'')]))
       = Some (Value (WMap [(''name'', WLeaf (VString ''n''))]))
   \<and> Field (snd (safeMerge unauthenticated RW
        (VStruct plain
           [(fld ''Name'' [(''json'', ''name'')], VString ''x''),
            (fld ''Secret'' [(''json'', ''secret''), (''readWrite'', ''admin''),
               (''writeRight'', ''admin'')], VString ''y'')]) RW
        (VStruct plain
           [(fld ''Name'' [(''json'', ''name'')], VString ''n''),
            (fld ''Secret'' [(''json'', ''secret''), (''readWrite'', ''admin''),
               (''writeRight'', ''admin'')], VString ''s'')]))) (Suc 0) = Some (VString ''s'')"
  using unauthenticated_denies [of unauthenticated "''admin''" "\<lambda>s. s" "Suc (Suc (Suc 0))" RW plain
      "[(fld ''Name'' [(''json'', ''name'')], VString ''n''),
        (fld ''Secret'' [(''json'', ''secret''), (''readWrite'', ''admin''),
           (''writeRight'', ''admin'')], VString ''s'')]"
      None "[(''name'', WLeaf (VString ''n''))]" RW
      "VStruct plain
           [(fld ''Name'' [(''json'', ''name'')], VString ''x''),
            (fld ''Secret'' [(''json'', ''secret''), (''readWrite'', ''admin''),
               (''writeRight'', ''admin'')], VString ''y'')]" RW]
  by (simp add: eval_simps flag_simps safeMerge_struct mergeLoop_Cons)

text \<open>
  C8. \<^verbatim>\<open>isEmpty\<close> follows the rule table: arrays, maps, slices and strings are empty iff their
  length is 0, booleans iff false, signed and unsigned integers iff 0, floats iff zero,
  pointers and interfaces iff nil, and every other kind (structs, complex numbers, channels,
  functions, unsafe pointers) never. A readable, unsuppressed field with the option
  \<^verbatim>\<open>omitempty\<close> is omitted iff it is empty: when it is empty the result is that for the record
  without the field, and when it is not, its wire name is in the resulting tree.
\<close>

theorem isEmpty_table_and_omitempty:
  "(isEmpty (VArray xs) \<longleftrightarrow> length xs = 0)
   \<and> (isEmpty (VMap kvs) \<longleftrightarrow> length kvs = 0)
   \<and> (isEmpty (VSlice xs) \<longleftrightarrow> length xs = 0)
   \<and> (isEmpty (VString s) \<longleftrightarrow> length s = 0)
   \<and> (isEmpty (VBool b) \<longleftrightarrow> b = False)
   \<and> (isEmpty (VInt i) \<longleftrightarrow> i = 0)
   \<and> (isEmpty (VUint u) \<longleftrightarrow> u = 0)
   \<and> (isEmpty (VFloat x) \<longleftrightarrow> float_is_zero x)
   \<and> (isEmpty (VPtr p) \<longleftrightarrow> p = None)
   \<and> (isEmpty (VInterface p) \<longleftrightarrow> p = None)
   \<and> (kindOf v = KStruct \<or> kindOf v = KOther \<longrightarrow> \<not> isEmpty v)
   \<and> (omitEmpty f \<and> readable ctx f \<and> jsonName f \<noteq> ''-'' \<longrightarrow>
        (isEmpty v \<longrightarrow>
           safeSerializeStruct snake ctx n fl (VStruct st (before @ (f, v) # after)) out
           = safeSerializeStruct snake ctx n fl (VStruct st (before @ after)) out)
      \<and> (\<not> isEmpty v \<and> \<not> (jsonName f = [] \<and> Name f = []) \<and>
           safeSerialize snake ctx n fl (Some (VStruct st (before @ (f, v) # after)))
             = Some (Value (WMap m)) \<longrightarrow>
           wireName snake f \<in> fst ` set m))"
proof (intro conjI impI)
  show "\<not> isEmpty v" if "kindOf v = KStruct \<or> kindOf v = KOther"
    using that by (cases v) simp_all
next
  assume "omitEmpty f \<and> readable ctx f \<and> jsonName f \<noteq> ''-''" and "isEmpty v"
  then have "skipped ctx f v" by (simp add: skipped_def)
  then show "safeSerializeStruct snake ctx n fl (VStruct st (before @ (f, v) # after)) out
           = safeSerializeStruct snake ctx n fl (VStruct st (before @ after)) out"
    by (rule safeSerializeStruct_drop_skipped)
next
  assume a: "omitEmpty f \<and> readable ctx f \<and> jsonName f \<noteq> ''-''"
    and b: "\<not> isEmpty v \<and> \<not> (jsonName f = [] \<and> Name f = []) \<and>
           safeSerialize snake ctx n fl (Some (VStruct st (before @ (f, v) # after)))
             = Some (Value (WMap m))"
  from b have "safeSerialize snake ctx n fl (Some (VStruct st (before @ (f, v) # after)))
      = Some (Value (WMap m))" by simp
  then have "fst ` set m = emittedNames snake ctx (before @ (f, v) # after)"
    by (rule safeSerialize_struct_keys)
  moreover from a b have "emitted ctx f v" by (simp add: emitted_def)
  then have "wireName snake f \<in> emittedNames snake ctx (before @ (f, v) # after)"
    by (auto simp: emittedNames_iff)
  ultimately show "wireName snake f \<in> fst ` set m" by simp
qed simp_all

theorem isEmpty_table_and_omitempty_witness:
  "omitEmpty (fld ''S'' [(''json'', ''s,omitempty'')])
   \<and> readable unauthenticated (fld ''S'' [(''json'', ''s,omitempty'')])
   \<and> jsonName (fld ''S'' [(''json'', ''s,omitempty'')]) = ''s''
   \<and> isEmpty (VString '''')
   \<and> safeSerialize (\<lambda>s. s) unauthenticated (Suc (Suc (Suc 0))) RW
        (Some (VStruct plain [(fld ''S'' [(''json'', ''s,omitempty'')], VString '''')]))
       = Some (Value (WMap []))
   \<and> \<not> isEmpty (VString ''x'')
   \<and> safeSerialize (\<lambda>s. s) unauthenticated (Suc (Suc (Suc 0))) RW
        (Some (VStruct plain [(fld ''S'' [(''json'', ''s,omitempty'')], VString ''x'')]))
       = Some (Value (WMap [(''s'', WLeaf (VString ''x''))]))
   \<and> ''s'' \<in> fst ` set [(''s'', WLeaf (VString ''x''))]"
  using isEmpty_table_and_omitempty [where v = "VString ''x''"
      and f = "fld ''S'' [(''json'', ''s,omitempty'')]" and ctx = unauthenticated
      and snake = "\<lambda>s. s" and n = "Suc (Suc (Suc 0))" and fl = RW and st = plain and before = "[]"
      and after = "[]" and out = None and m = "[(''s'', WLeaf (VString ''x''))]"]
    isEmpty_table_and_omitempty [where v = "VString []"
      and f = "fld ''S'' [(''json'', ''s,omitempty'')]" and ctx = unauthenticated
      and snake = "\<lambda>s. s" and n = "Suc (Suc 0)" and fl = RW and st = plain and before = "[]"
      and after = "[]" and out = None]
  by (simp add: eval_simps flag_simps)

lemma sameFieldTypes_nth:
  "sameFieldTypes sfs fs \<Longrightarrow> length sfs = length fs \<and> (\<forall>j < length fs. fst (sfs ! j) = fst (fs ! j))"
proof (induction fs arbitrary: sfs)
  case Nil
  then show ?case by (cases sfs) simp_all
next
  case (Cons a fs)
  obtain f d where a: "a = (f, d)" by (cases a)
  from Cons.prems obtain s ys where sfs: "sfs = (f, s) # ys" and ys: "sameFieldTypes ys fs"
    unfolding a sameFieldTypes_Cons_right by blast
  from Cons.IH [OF ys] show ?case
    by (auto simp: sfs a nth_Cons split: nat.splits)
qed

lemma Field_zeroValue:
  "j < length fs \<Longrightarrow> Field (zeroValue (VStruct st fs)) j = Some (zeroValue (snd (fs ! j)))"
  by (simp add: case_prod_beta)

text \<open>
  C2. The claim as stated, that every field whose write right is unset or held ends up equal
  to the decoded value of the body for that field, fails for a field that is itself a struct
  without an unmarshaler of its own: the merger recurses into it, and an inner field whose
  write right the caller lacks keeps its prior value. Here \<open>Addr\<close> has no write right, and after
  the call it differs from the decoded \<open>Addr\<close> in \<open>Street\<close>.
\<close>

theorem ReadJSON_recurses_into_struct_field:
  "writeRight (fld ''Addr'' [(''json'', ''addr'')]) = []
   \<and> ReadJSON unauthenticated
        (\<lambda>ru. Inr (VStruct plain
           [(fld ''Addr'' [(''json'', ''addr'')],
             VStruct plain
               [(fld ''Street'' [(''json'', ''street''), (''writeRight'', ''admin'')], VString ''new street''),
                (fld ''City'' [(''json'', ''city'')], VString ''new city'')])]))
        (VStruct plain
           [(fld ''Addr'' [(''json'', ''addr'')],
             VStruct plain
               [(fld ''Street'' [(''json'', ''street''), (''writeRight'', ''admin'')], VString ''old street''),
                (fld ''City'' [(''json'', ''city'')], VString ''old city'')])])
     = (Nil,
        VStruct plain
           [(fld ''Addr'' [(''json'', ''addr'')],
             VStruct plain
               [(fld ''Street'' [(''json'', ''street''), (''writeRight'', ''admin'')], VString ''old street''),
                (fld ''City'' [(''json'', ''city'')], VString ''new city'')])])
   \<and> VStruct plain
         [(fld ''Street'' [(''json'', ''street''), (''writeRight'', ''admin'')], VString ''old street''),
          (fld ''City'' [(''json'', ''city'')], VString ''new city'')]
     \<noteq> VStruct plain
         [(fld ''Street'' [(''json'', ''street''), (''writeRight'', ''admin'')], VString ''new street''),
          (fld ''City'' [(''json'', ''city'')], VString ''new city'')]"
  by (simp add: eval_simps flag_simps ReadJSON_def safeMerge_struct mergeLoop_Cons)

text \<open>
  C2, as amended. Take a target of struct type and a body that decodes without error into a
  scratch value of the same type. The scratch instance starts with every field at its zero
  value. A field whose write right is set and not held keeps its prior value, whatever else
  happens. When no field that the merger sets is read-only (\<^const>\<open>settable\<close>), \<^verbatim>\<open>ReadJSON\<close>
  returns nil and keeps the field descriptors, and a field whose write right is unset or held
  is equal to the decoded value of the body for that field, unless that value is a struct
  without an unmarshaler of its own: then the field is the result of merging the decoded
  struct into the prior one by the same rule. In particular such a field that is not a struct
  of that sort, and that the decoder left as the scratch instance had it, ends at its zero
  value. (What happens to a field that \<^verbatim>\<open>Set\<close> refuses is left open here.)
\<close>

theorem ReadJSON_merges_by_write_right:
  assumes "ReadJSONUnsafe (zeroValue (VStruct st fs)) = Inr ru"
    and "sameType ru (VStruct st fs)"
  shows "(\<forall>j < length fs.
        Field (zeroValue (VStruct st fs)) j = Some (zeroValue (snd (fs ! j))) \<and>
        (\<not> writable ctx (fst (fs ! j)) \<longrightarrow>
           Field (snd (ReadJSON ctx ReadJSONUnsafe (VStruct st fs))) j = Some (snd (fs ! j))))
   \<and> (settable ctx RW (VStruct st fs) \<longrightarrow>
      (\<exists>fs'. ReadJSON ctx ReadJSONUnsafe (VStruct st fs) = (Nil, VStruct st fs') \<and>
         length fs' = length fs \<and>
         (\<forall>j < length fs.
            fst (fs' ! j) = fst (fs ! j) \<and>
            (\<not> writable ctx (fst (fs ! j)) \<longrightarrow> snd (fs' ! j) = snd (fs ! j)) \<and>
            (writable ctx (fst (fs ! j)) \<longrightarrow>
               (\<exists>s. Field ru j = Some s \<and>
                  (if isRecursibleType s then
                     safeMerge ctx (fieldFlag RW (fst (fs ! j))) s (fieldFlag RW (fst (fs ! j)))
                       (snd (fs ! j)) = (Nil, snd (fs' ! j))
                   else snd (fs' ! j) = s))) \<and>
            (writable ctx (fst (fs ! j)) \<and> \<not> isRecursibleType (snd (fs ! j)) \<and>
             Field ru j = Field (zeroValue (VStruct st fs)) j \<longrightarrow>
               snd (fs' ! j) = zeroValue (snd (fs ! j))))))"
proof (intro conjI allI impI)
  fix j
  assume j: "j < length fs"
  show "Field (zeroValue (VStruct st fs)) j = Some (zeroValue (snd (fs ! j)))"
    using j by (rule Field_zeroValue)
  assume "\<not> writable ctx (fst (fs ! j))"
  with j have "Field (snd (safeMerge ctx RW ru RW (VStruct st fs))) j = Some (snd (fs ! j))"
    by (rule safeMerge_unwritable_field)
  then show "Field (snd (ReadJSON ctx ReadJSONUnsafe (VStruct st fs))) j = Some (snd (fs ! j))"
    using assms(1) by (simp add: ReadJSON_def)
next
  assume se: "settable ctx RW (VStruct st fs)"
  from assms(2) obtain sfs where ru: "ru = VStruct st sfs" and ty: "sameFieldTypes sfs fs"
    unfolding sameType_struct_right by blast
  note nth = sameFieldTypes_nth [OF ty]
  obtain err fs' where m: "mergeLoop ctx RW ru RW 0 fs = (err, fs')"
    by (cases "mergeLoop ctx RW ru RW 0 fs")
  have "fst (safeMerge ctx RW ru RW (VStruct st fs)) = Nil"
    using assms(2) se by (intro safeMerge_settable) simp_all
  then have err: "err = Nil" by (simp add: safeMerge_struct m)
  have len: "length fs' = length fs" using mergeLoop_length [of ctx RW ru RW 0 fs] m by simp
  have res: "ReadJSON ctx ReadJSONUnsafe (VStruct st fs) = (Nil, VStruct st fs')"
    using assms(1) by (simp add: ReadJSON_def safeMerge_struct m err)
  have fields: "fst (fs' ! j) = fst (fs ! j) \<and>
        (\<not> writable ctx (fst (fs ! j)) \<longrightarrow> snd (fs' ! j) = snd (fs ! j)) \<and>
        (writable ctx (fst (fs ! j)) \<longrightarrow>
           (\<exists>s. Field ru j = Some s \<and>
              (if isRecursibleType s then
                 safeMerge ctx (fieldFlag RW (fst (fs ! j))) s (fieldFlag RW (fst (fs ! j)))
                   (snd (fs ! j)) = (Nil, snd (fs' ! j))
               else snd (fs' ! j) = s)))" if j: "j < length fs" for j
  proof -
    have e: "0 + j = j" "flagOfField RW ru j = fieldFlag RW (fst (fs ! j))"
      using nth j by (simp_all add: ru)
    from mergeLoop_fields [OF m [unfolded err] j] show ?thesis unfolding e .
  qed
  have zero: "snd (fs' ! j) = zeroValue (snd (fs ! j))"
    if j: "j < length fs" and w: "writable ctx (fst (fs ! j))"
      and nr: "\<not> isRecursibleType (snd (fs ! j))"
      and un: "Field ru j = Field (zeroValue (VStruct st fs)) j" for j
  proof -
    from fields [OF j] w obtain s where s: "Field ru j = Some s"
      and c: "if isRecursibleType s then
                 safeMerge ctx (fieldFlag RW (fst (fs ! j))) s (fieldFlag RW (fst (fs ! j)))
                   (snd (fs ! j)) = (Nil, snd (fs' ! j))
               else snd (fs' ! j) = s"
      by blast
    from s un have sz: "s = zeroValue (snd (fs ! j))"
      using Field_zeroValue [OF j, of st] by simp
    have "\<not> isRecursibleType s"
      unfolding sz using nr by (cases "snd (fs ! j)") simp_all
    with c sz show ?thesis by simp
  qed
  show "\<exists>fs'. ReadJSON ctx ReadJSONUnsafe (VStruct st fs) = (Nil, VStruct st fs') \<and>
         length fs' = length fs \<and>
         (\<forall>j < length fs.
            fst (fs' ! j) = fst (fs ! j) \<and>
            (\<not> writable ctx (fst (fs ! j)) \<longrightarrow> snd (fs' ! j) = snd (fs ! j)) \<and>
            (writable ctx (fst (fs ! j)) \<longrightarrow>
               (\<exists>s. Field ru j = Some s \<and>
                  (if isRecursibleType s then
                     safeMerge ctx (fieldFlag RW (fst (fs ! j))) s (fieldFlag RW (fst (fs ! j)))
                       (snd (fs ! j)) = (Nil, snd (fs' ! j))
                   else snd (fs' ! j) = s))) \<and>
            (writable ctx (fst (fs ! j)) \<and> \<not> isRecursibleType (snd (fs ! j)) \<and>
             Field ru j = Field (zeroValue (VStruct st fs)) j \<longrightarrow>
               snd (fs' ! j) = zeroValue (snd (fs ! j))))"
  proof (intro exI [of _ fs'] conjI allI impI)
    show "ReadJSON ctx ReadJSONUnsafe (VStruct st fs) = (Nil, VStruct st fs')" by (rule res)
    show "length fs' = length fs" by (rule len)
  next
    fix j assume j: "j < length fs"
    from fields [OF j] show "fst (fs' ! j) = fst (fs ! j)" by simp
    from fields [OF j] show "snd (fs' ! j) = snd (fs ! j)" if "\<not> writable ctx (fst (fs ! j))"
      using that by simp
    from fields [OF j] show "\<exists>s. Field ru j = Some s \<and>
                  (if isRecursibleType s then
                     safeMerge ctx (fieldFlag RW (fst (fs ! j))) s (fieldFlag RW (fst (fs ! j)))
                       (snd (fs ! j)) = (Nil, snd (fs' ! j))
                   else snd (fs' ! j) = s)" if "writable ctx (fst (fs ! j))"
      using that by simp
    show "snd (fs' ! j) = zeroValue (snd (fs ! j))"
      if "writable ctx (fst (fs ! j)) \<and> \<not> isRecursibleType (snd (fs ! j)) \<and>
             Field ru j = Field (zeroValue (VStruct st fs)) j"
      using zero [OF j] that by simp
  qed
qed

theorem ReadJSON_merges_by_write_right_witness:
  "(\<lambda>ru. case ru of
           VStruct st [(f1, z1), (f2, z2), (f3, z3)] \<Rightarrow>
             Inr (VStruct st [(f1, VString ''x''), (f2, z2), (f3, VString ''y'')])
         | _ \<Rightarrow> Inl ''json: cannot unmarshal'') (zeroValue (VStruct plain
          [(fld ''Name'' [(''json'', ''name'')], VString ''old''),
           (fld ''Nick'' [(''json'', ''nick'')], VString ''nick''),
           (fld ''Secret'' [(''json'', ''secret''), (''writeRight'', ''admin'')], VString ''s'')])) = (Inr (VStruct plain
          [(fld ''Name'' [(''json'', ''name'')], VString ''x''),
           (fld ''Nick'' [(''json'', ''nick'')], VString []),
           (fld ''Secret'' [(''json'', ''secret''), (''writeRight'', ''admin'')], VString ''y'')]) :: error + val)
   \<and> sameType (VStruct plain
          [(fld ''Name'' [(''json'', ''name'')], VString ''x''),
           (fld ''Nick'' [(''json'', ''nick'')], VString []),
           (fld ''Secret'' [(''json'', ''secret''), (''writeRight'', ''admin'')], VString ''y'')]) (VStruct plain
          [(fld ''Name'' [(''json'', ''name'')], VString ''old''),
           (fld ''Nick'' [(''json'', ''nick'')], VString ''nick''),
           (fld ''Secret'' [(''json'', ''secret''), (''writeRight'', ''admin'')], VString ''s'')])
   \<and> settable (holding [''user'']) RW (VStruct plain
          [(fld ''Name'' [(''json'', ''name'')], VString ''old''),
           (fld ''Nick'' [(''json'', ''nick'')], VString ''nick''),
           (fld ''Secret'' [(''json'', ''secret''), (''writeRight'', ''admin'')], VString ''s'')])
   \<and> writable (holding [''user'']) (fld ''Nick'' [(''json'', ''nick'')])
   \<and> \<not> writable (holding [''user''])
         (fld ''Secret'' [(''json'', ''secret''), (''writeRight'', ''admin'')])
   \<and> Field (VStruct plain
          [(fld ''Name'' [(''json'', ''name'')], VString ''x''),
           (fld ''Nick'' [(''json'', ''nick'')], VString []),
           (fld ''Secret'' [(''json'', ''secret''), (''writeRight'', ''admin'')], VString ''y'')]) 1 = Field (zeroValue (VStruct plain
          [(fld ''Name'' [(''json'', ''name'')], VString ''old''),
           (fld ''Nick'' [(''json'', ''nick'')], VString ''nick''),
           (fld ''Secret'' [(''json'', ''secret''), (''writeRight'', ''admin'')], VString ''s'')])) 1
   \<and> ReadJSON (holding [''user'']) (\<lambda>ru. case ru of
           VStruct st [(f1, z1), (f2, z2), (f3, z3)] \<Rightarrow>
             Inr (VStruct st [(f1, VString ''x''), (f2, z2), (f3, VString ''y'')])
         | _ \<Rightarrow> Inl ''json: cannot unmarshal'') (VStruct plain
          [(fld ''Name'' [(''json'', ''name'')], VString ''old''),
           (fld ''Nick'' [(''json'', ''nick'')], VString ''nick''),
           (fld ''Secret'' [(''json'', ''secret''), (''writeRight'', ''admin'')], VString ''s'')])
     = (Nil, VStruct plain
          [(fld ''Name'' [(''json'', ''name'')], VString ''x''),
           (fld ''Nick'' [(''json'', ''nick'')], VString []),
           (fld ''Secret'' [(''json'', ''secret''), (''writeRight'', ''admin'')], VString ''s'')])"
  using ReadJSON_merges_by_write_right [where ReadJSONUnsafe = "(\<lambda>ru. case ru of
           VStruct st [(f1, z1), (f2, z2), (f3, z3)] \<Rightarrow>
             Inr (VStruct st [(f1, VString ''x''), (f2, z2), (f3, VString ''y'')])
         | _ \<Rightarrow> Inl ''json: cannot unmarshal'')"
      and st = plain
      and fs = "[(fld ''Name'' [(''json'', ''name'')], VString ''old''),
           (fld ''Nick'' [(''json'', ''nick'')], VString ''nick''),
           (fld ''Secret'' [(''json'', ''secret''), (''writeRight'', ''admin'')], VString ''s'')]"
      and ru = "VStruct plain
          [(fld ''Name'' [(''json'', ''name'')], VString ''x''),
           (fld ''Nick'' [(''json'', ''nick'')], VString []),
           (fld ''Secret'' [(''json'', ''secret''), (''writeRight'', ''admin'')], VString ''y'')]"
      and ctx = "holding [''user'']"]
  by (simp add: eval_simps flag_simps ReadJSON_def safeMerge_struct mergeLoop_Cons)

text \<open>
  C10. The claim: for a scratch value and a target of the same struct type \<^verbatim>\<open>safeMerge\<close> always
  returns nil, so that \<^verbatim>\<open>ReadJSON\<close> fails only in the decode. The code does not do this:
  nothing keeps it from a field that is not exported, and \<^verbatim>\<open>dstField.Set(srcField)\<close> panics on
  one. For \<open>T{Name string; seen bool}\<close> the decode succeeds, the merge sets \<open>Name\<close> and panics
  at \<open>seen\<close>. (The error that \<^verbatim>\<open>safeMerge\<close> returns is indeed never non-nil, and it is nil when
  no field that the merger sets is read-only: \<open>safeMerge_never_Err\<close>, \<open>safeMerge_settable\<close>.)
\<close>

theorem safeMerge_panics_on_unexported_field:
  "sameType
     (VStruct plain [(fld ''Name'' [(''json'', ''name'')], VString ''x''),
                     (unexported ''seen'' [], VBool False)])
     (VStruct plain [(fld ''Name'' [(''json'', ''name'')], VString ''old''),
                     (unexported ''seen'' [], VBool True)])
   \<and> safeMerge ctx RW
       (VStruct plain [(fld ''Name'' [(''json'', ''name'')], VString ''x''),
                       (unexported ''seen'' [], VBool False)])
       RW
       (VStruct plain [(fld ''Name'' [(''json'', ''name'')], VString ''old''),
                       (unexported ''seen'' [], VBool True)])
     = (Panic,
        VStruct plain [(fld ''Name'' [(''json'', ''name'')], VString ''x''),
                       (unexported ''seen'' [], VBool True)])
   \<and> ReadJSON ctx
       (\<lambda>ru. Inr (VStruct plain [(fld ''Name'' [(''json'', ''name'')], VString ''x''),
                                 (unexported ''seen'' [], VBool False)]))
       (VStruct plain [(fld ''Name'' [(''json'', ''name'')], VString ''old''),
                       (unexported ''seen'' [], VBool True)])
     = (Panic,
        VStruct plain [(fld ''Name'' [(''json'', ''name'')], VString ''x''),
                       (unexported ''seen'' [], VBool True)])"
  by (simp add: eval_simps flag_simps ReadJSON_def safeMerge_struct mergeLoop_Cons)

end
